theory Spec2Isabelle
  imports Main
begin

section \<open>Shared vocabulary: exceptions, observable effects, the world\<close>

text \<open>
  Every exception the sources raise, or let through from bzrlib and the operating system,
  is a value.
\<close>

datatype error =
    BzrCommandError string
  | BzrError string
  | NotVersionedError string
  | PathNotChild string string
  | NoWorkingTree
  | NotLocalUrl
  | NotBranchError string
  | NoSuchId string
  | NoSuchRevision
  | IndexError
  | OSError string

text \<open>
  \<open>NoDifferencesFound\<close> is the controller's own exception class (controller.py, line
  26): bzrlib and the operating system cannot raise it, so code that may raise it returns
  an \<open>exn\<close>, and everything else an \<open>error\<close>.
\<close>

datatype exn = Raised error | NoDifferencesFound

text \<open>
  bzrlib's \<open>TreeDelta\<close>, as far as the controller reads it: four lists, of which only
  \<open>modified\<close> is taken apart, into (path, file id, kind, text modified, meta modified).
\<close>

record delta =
  removed :: "(string \<times> string \<times> string) list"
  added :: "(string \<times> string \<times> string) list"
  renamed :: "(string \<times> string \<times> string \<times> string \<times> bool \<times> bool) list"
  modified :: "(string \<times> string \<times> string \<times> bool \<times> bool) list"

text \<open>
  The effects of one invocation that an observer outside the process can see: read locks
  taken and given back on a tree (named by \<open>t_name\<close>), directories created, emptied,
  exported into and removed, files written, and the external tool being started with its
  two paths and, for a list tool, the optional list of relative paths. A delta computation
  is logged too: the new tree, the old tree, the paths it was restricted to, and the delta
  bzrlib answered.
\<close>

datatype event =
    LockRead string
  | Unlock string
  | MkDTemp string
  | DeleteAny string
  | Export string string
  | WriteFile string string
  | MakeReadonly string
  | ChangesFrom string string "string list" delta
  | RunTool string string "string list option"
  | RmTree string

text \<open>
  The world threaded through the stateful code: the log of effects, newest first; how many
  temporary directories have been asked for; and the directories now present on disk.
\<close>

record world =
  trace :: "event list"
  made :: nat
  disk :: "string set"

definition emit :: "event \<Rightarrow> world \<Rightarrow> world" where
  "emit e w = w\<lparr>trace := e # trace w\<rparr>"

text \<open>
  What the operating system decides: where temporary directories live, the random part of
  the n-th temporary name (\<open>None\<close>: \<open>mkdtemp\<close> raises), whether removing a
  directory tree succeeds, and what running a tool (command, old path, new path, optional
  path list) gives: its exit status, or the error of a process that could not be started.
\<close>

record os =
  tmp_root :: string
  tmp_rand :: "nat \<Rightarrow> string option"
  rmtree_ok :: "string \<Rightarrow> bool"
  tool_exit :: "string \<Rightarrow> string \<Rightarrow> string \<Rightarrow> string list option \<Rightarrow> error + int"

text \<open>Python truth of a capability value or flag: \<open>None\<close> and \<open>False\<close> are false.\<close>

fun truthy :: "bool option \<Rightarrow> bool" where
  "truthy None = False"
| "truthy (Some b) = b"

text \<open>\<open>str.endswith\<close>.\<close>

definition endswith :: "string \<Rightarrow> string \<Rightarrow> bool" where
  "endswith s suf = (length suf \<le> length s \<and> drop (length s - length suf) s = suf)"

text \<open>\<open>tempfile.mkdtemp(prefix, suffix)\<close>: the directory \<open>prefix + random + suffix\<close> under the
  temporary root.\<close>

definition mkdtemp :: "os \<Rightarrow> string \<Rightarrow> string \<Rightarrow> world \<Rightarrow> (error + string) \<times> world" where
  "mkdtemp sys pre suf w =
     (case tmp_rand sys (made w) of
        None \<Rightarrow> (Inl (OSError ''mkdtemp''), w\<lparr>made := Suc (made w)\<rparr>)
      | Some r \<Rightarrow>
          (let p = tmp_root sys @ ''/'' @ pre @ r @ suf
           in (Inr p, (emit (MkDTemp p) w)\<lparr>made := Suc (made w), disk := insert p (disk w)\<rparr>)))"

text \<open>\<open>osutils.rmtree\<close>: the attempt is logged; on success the directory is gone.\<close>

definition rmtree :: "os \<Rightarrow> string \<Rightarrow> world \<Rightarrow> (error + unit) \<times> world" where
  "rmtree sys p w =
     (let w' = emit (RmTree p) w
      in if rmtree_ok sys p then (Inr (), w'\<lparr>disk := disk w' - {p}\<rparr>)
         else (Inl (OSError p), w'))"

section \<open>tempdir.py: NamedTemporaryDir\<close>

record NamedTemporaryDir =
  path :: string
  readonly :: bool
  cleaned :: bool

text \<open>\<open>NamedTemporaryDir.__init__(prefix, suffix, cleanup, readonly)\<close>.\<close>

definition NamedTemporaryDir_init ::
  "os \<Rightarrow> string \<Rightarrow> string \<Rightarrow> bool option \<Rightarrow> bool \<Rightarrow> world
     \<Rightarrow> (error + NamedTemporaryDir) \<times> world" where
  "NamedTemporaryDir_init sys pre suf cleanup_flag ro w =
     (case mkdtemp sys pre (suf @ ''_tmp'') w of
        (Inl e, w') \<Rightarrow> (Inl e, w')
      | (Inr p, w') \<Rightarrow>
          (Inr \<lparr>path = p, readonly = ro, cleaned = (\<not> truthy cleanup_flag)\<rparr>, w'))"

text \<open>\<open>NamedTemporaryDir.cleanup\<close>: the marker check comes first and does not look at
  \<open>cleaned\<close>; the flag is set before the removal is attempted.\<close>

definition cleanup ::
  "os \<Rightarrow> NamedTemporaryDir \<Rightarrow> world \<Rightarrow> (error + unit) \<times> NamedTemporaryDir \<times> world" where
  "cleanup sys self w =
     (if \<not> endswith (path self) ''_tmp'' then
        (Inl (BzrError (''attempted to delete a non-tmp directory: '' @ path self)), self, w)
      else if \<not> cleaned self then
        (let self' = self\<lparr>cleaned := True\<rparr>
         in case rmtree sys (path self') w of (r, w') \<Rightarrow> (r, self', w'))
      else (Inr (), self, w))"

text \<open>\<open>NamedTemporaryDir.__del__\<close>: runs \<open>cleanup\<close>; an exception escaping a destructor is
  reported by the interpreter and dropped, so only the object and the world come back.\<close>

definition del_NamedTemporaryDir ::
  "os \<Rightarrow> NamedTemporaryDir \<Rightarrow> world \<Rightarrow> NamedTemporaryDir \<times> world" where
  "del_NamedTemporaryDir sys self w = snd (cleanup sys self w)"

text \<open>Any sequence of explicit \<open>cleanup\<close> calls (\<open>True\<close>) and destructor runs
  (\<open>False\<close>) on one area.\<close>

fun disposals :: "os \<Rightarrow> bool list \<Rightarrow> NamedTemporaryDir \<Rightarrow> world \<Rightarrow> NamedTemporaryDir \<times> world" where
  "disposals sys [] self w = (self, w)"
| "disposals sys (explicit # rest) self w =
     (case (if explicit then snd (cleanup sys self w) else del_NamedTemporaryDir sys self w) of
        (self', w') \<Rightarrow> disposals sys rest self' w')"

section \<open>The part of bzrlib the sources call\<close>

text \<open>
  An inventory entry carries the file id, the path inside its tree, the kind
  (\<open>file\<close>, \<open>directory\<close>, \<open>root_directory\<close>, \<open>symlink\<close>) and, for a file, its bytes.
  A tree is a working tree or a revision tree (\<open>t_is_working\<close> answers
  \<open>isinstance(tree, WorkingTree)\<close>); \<open>t_name\<close> tells trees apart in the log.
\<close>

record entry =
  e_id :: string
  e_path :: string
  e_kind :: string
  e_text :: string

record tree =
  t_name :: string
  t_is_working :: bool
  t_basedir :: string
  t_root_id :: string
  inventory :: "entry list"

text \<open>A branch: \<open>in_history\<close> answers \<open>rev.in_history(branch)\<close> with (revno, rev_id) and
  \<open>revision_tree\<close> answers \<open>branch.repository.revision_tree(rev_id)\<close>.\<close>

record branch =
  base :: string
  nick :: string
  basis_tree :: tree
  in_history :: "string \<Rightarrow> error + (nat \<times> string)"
  revision_tree :: "string \<Rightarrow> error + tree"

text \<open>
  The rest of the repository engine, as the functions the controller calls:
  \<open>WorkingTree.open_containing\<close> (with the tree's branch), \<open>Branch.open_containing\<close>,
  \<open>osutils.normpath\<close> and \<open>osutils.relpath\<close>, whether \<open>transport.get_transport\<close> gives
  a local transport, and \<open>new_tree.changes_from(old_tree, specific_files)\<close>.
\<close>

record bzr =
  wt_open_containing :: "string \<Rightarrow> error + (tree \<times> branch \<times> string)"
  br_open_containing :: "string \<Rightarrow> error + (branch \<times> string)"
  normpath :: "string \<Rightarrow> string"
  relpath :: "string \<Rightarrow> string \<Rightarrow> error + string"
  is_local :: "string \<Rightarrow> bool"
  changes_from :: "tree \<Rightarrow> tree \<Rightarrow> string list \<Rightarrow> delta"

definition has_id :: "tree \<Rightarrow> string \<Rightarrow> bool" where
  "has_id t fid = (find (\<lambda>e. e_id e = fid) (inventory t) \<noteq> None)"

definition id2path :: "tree \<Rightarrow> string \<Rightarrow> error + string" where
  "id2path t fid =
     (case find (\<lambda>e. e_id e = fid) (inventory t) of
        None \<Rightarrow> Inl (NoSuchId fid) | Some e \<Rightarrow> Inr (e_path e))"

definition get_file_kind :: "tree \<Rightarrow> string \<Rightarrow> error + string" where
  "get_file_kind t fid =
     (case find (\<lambda>e. e_id e = fid) (inventory t) of
        None \<Rightarrow> Inl (NoSuchId fid) | Some e \<Rightarrow> Inr (e_kind e))"

definition get_file :: "tree \<Rightarrow> string \<Rightarrow> error + string" where
  "get_file t fid =
     (case find (\<lambda>e. e_id e = fid) (inventory t) of
        None \<Rightarrow> Inl (NoSuchId fid) | Some e \<Rightarrow> Inr (e_text e))"

definition path2id :: "tree \<Rightarrow> string \<Rightarrow> string option" where
  "path2id t p =
     (case find (\<lambda>e. e_path e = p) (inventory t) of None \<Rightarrow> None | Some e \<Rightarrow> Some (e_id e))"

text \<open>\<open>osutils.pathjoin\<close> on two components and \<open>osutils.basename\<close>, as posixpath has them.\<close>

definition pathjoin :: "string \<Rightarrow> string \<Rightarrow> string" where
  "pathjoin a b =
     (if take 1 b = ''/'' then b
      else if a = [] \<or> endswith a ''/'' then a @ b
      else a @ ''/'' @ b)"

definition basename :: "string \<Rightarrow> string" where
  "basename p = rev (takeWhile (\<lambda>c. c \<noteq> CHR ''/'') (rev p))"

definition abspath :: "tree \<Rightarrow> string \<Rightarrow> string" where
  "abspath t p = pathjoin (t_basedir t) p"

definition id2abspath :: "tree \<Rightarrow> string \<Rightarrow> error + string" where
  "id2abspath t fid = (case id2path t fid of Inl e \<Rightarrow> Inl e | Inr p \<Rightarrow> Inr (abspath t p))"

text \<open>\<open>"%s" % n\<close> for a revision number.\<close>

fun str_nat :: "nat \<Rightarrow> string" where
  "str_nat n =
     (if n < 10 then [char_of (48 + n)]
      else str_nat (n div 10) @ [char_of (48 + n mod 10)])"

text \<open>\<open>s.replace(old, new, 1)\<close>: the leftmost occurrence of \<open>old\<close> in \<open>s\<close>, wherever it
  starts, is replaced; without an occurrence \<open>s\<close> comes back unchanged.\<close>

fun replace1 :: "string \<Rightarrow> string \<Rightarrow> string \<Rightarrow> string" where
  "replace1 [] old new = (if old = [] then new else [])"
| "replace1 (c # s) old new =
     (if take (length old) (c # s) = old then new @ drop (length old) (c # s)
      else c # replace1 s old new)"

section \<open>tempdir.py: writing into a NamedTemporaryDir\<close>

definition make_readonly :: "NamedTemporaryDir \<Rightarrow> world \<Rightarrow> world" where
  "make_readonly self w = (if readonly self then emit (MakeReadonly (path self)) w else w)"

definition write_tree ::
  "NamedTemporaryDir \<Rightarrow> tree \<Rightarrow> string list \<Rightarrow> world \<Rightarrow> (error + unit) \<times> world" where
  "write_tree self rev_tree file_id_list w =
     (let w1 = (emit (DeleteAny (path self)) w)\<lparr>disk := disk w - {path self}\<rparr>;
          w2 = (emit (Export (t_name rev_tree) (path self)) w1)\<lparr>disk := insert (path self) (disk w1)\<rparr>
      in (Inr (), make_readonly self w2))"

fun write_files_loop ::
  "NamedTemporaryDir \<Rightarrow> tree \<Rightarrow> string list \<Rightarrow> world \<Rightarrow> (error + unit) \<times> world" where
  "write_files_loop self rev_tree [] w = (Inr (), w)"
| "write_files_loop self rev_tree (file_id # rest) w =
     (if has_id rev_tree file_id then
        (case id2path rev_tree file_id of
           Inl e \<Rightarrow> (Inl e, w)
         | Inr p \<Rightarrow>
             (case get_file rev_tree file_id of
                Inl e \<Rightarrow> (Inl e, w)
              | Inr bytes \<Rightarrow>
                  write_files_loop self rev_tree rest
                    (emit (WriteFile (pathjoin (path self) (basename p)) bytes) w)))
      else write_files_loop self rev_tree rest w)"

definition write_files ::
  "NamedTemporaryDir \<Rightarrow> tree \<Rightarrow> string list \<Rightarrow> world \<Rightarrow> (error + unit) \<times> world" where
  "write_files self rev_tree file_id_list w =
     (case write_files_loop self rev_tree file_id_list w of
        (Inl e, w') \<Rightarrow> (Inl e, w')
      | (Inr u, w') \<Rightarrow> (Inr (), make_readonly self w'))"

definition write_stuff ::
  "NamedTemporaryDir \<Rightarrow> tree \<Rightarrow> string list \<Rightarrow> bool \<Rightarrow> world \<Rightarrow> (error + unit) \<times> world" where
  "write_stuff self rev_tree file_id_list use_tree_flag w =
     (if use_tree_flag then write_tree self rev_tree file_id_list w
      else write_files self rev_tree file_id_list w)"

section \<open>difftool.py and externtool.py: the tool object\<close>

text \<open>
  \<open>capabilities\<close> is the dictionary behind \<open>supports(key)\<close>: \<open>None\<close> for an absent
  key. Running the tool is the operating system's business: the call is logged and the
  outcome is whatever \<open>tool_exit\<close> says.
\<close>

record tool =
  command :: string
  options :: string
  capabilities :: "string \<Rightarrow> bool option"

definition supports :: "tool \<Rightarrow> string \<Rightarrow> bool option" where
  "supports dtool key = capabilities dtool key"

definition run_tool ::
  "os \<Rightarrow> tool \<Rightarrow> string \<Rightarrow> string \<Rightarrow> string list option \<Rightarrow> world \<Rightarrow> (error + int) \<times> world" where
  "run_tool sys dtool old_path new_path plist w =
     (tool_exit sys (command dtool) old_path new_path plist,
      emit (RunTool old_path new_path plist) w)"

section \<open>controller.py\<close>

subsection \<open>get\_tree\_files\<close>

text \<open>Lines 227 to 239: the tree, its branch, the relative path of the first name and
  \<open>base_path\<close> (\<open>None\<close> for a location that is not local). \<open>file_list[0]\<close> of an
  empty list raises.\<close>

definition open_first ::
  "bzr \<Rightarrow> string list \<Rightarrow> error + (branch \<times> tree \<times> string \<times> string option)" where
  "open_first env file_list =
     (case file_list of
        [] \<Rightarrow> Inl IndexError
      | f0 # _ \<Rightarrow>
          (case wt_open_containing env f0 of
             Inr (t, branch1, rel_path) \<Rightarrow>
               (case id2abspath t (t_root_id t) of
                  Inl e \<Rightarrow> Inl e
                | Inr p \<Rightarrow> Inr (branch1, t, rel_path, Some (normpath env p)))
           | Inl NoWorkingTree \<Rightarrow>
               (case br_open_containing env f0 of
                  Inl e \<Rightarrow> Inl e
                | Inr (branch1, rel_path) \<Rightarrow>
                    Inr (branch1, basis_tree branch1, rel_path, Some (normpath env (base branch1))))
           | Inl NotLocalUrl \<Rightarrow>
               (case br_open_containing env f0 of
                  Inl e \<Rightarrow> Inl e
                | Inr (branch1, rel_path) \<Rightarrow> Inr (branch1, basis_tree branch1, rel_path, None))
           | Inl e \<Rightarrow> Inl e))"

fun is_PathNotChild :: "error \<Rightarrow> bool" where
  "is_PathNotChild (PathNotChild f b) = True"
| "is_PathNotChild e = False"

text \<open>Lines 251 to 253: a later name, when there is no usable \<open>base_path\<close>.\<close>

definition rpath_by_branch :: "bzr \<Rightarrow> branch \<Rightarrow> string \<Rightarrow> error + string" where
  "rpath_by_branch env branch1 file_name =
     (case br_open_containing env file_name of
        Inl e \<Rightarrow> Inl e
      | Inr (branch2, rpath) \<Rightarrow>
          if base branch2 \<noteq> base branch1 then Inl (PathNotChild file_name (base branch1))
          else Inr rpath)"

text \<open>Lines 247 to 255: the path of a name relative to the tree. \<open>if base_path\<close> is a
  Python truth test, false for \<open>None\<close> and for the empty string.\<close>

definition name_rpath ::
  "bzr \<Rightarrow> branch \<Rightarrow> string option \<Rightarrow> string \<Rightarrow> nat \<Rightarrow> string \<Rightarrow> error + string" where
  "name_rpath env branch1 base_path rel_path i file_name =
     (if 0 < i then
        (case base_path of
           None \<Rightarrow> rpath_by_branch env branch1 file_name
         | Some bp \<Rightarrow>
             if bp \<noteq> [] then relpath env bp file_name
             else rpath_by_branch env branch1 file_name)
      else Inr rel_path)"

text \<open>Lines 260 to 264: what is raised for a name without a file id.\<close>

definition unmatched :: "bzr \<Rightarrow> branch \<Rightarrow> string \<Rightarrow> error" where
  "unmatched env branch1 file_name =
     (if \<not> is_local env file_name then PathNotChild file_name (base branch1)
      else NotVersionedError file_name)"

text \<open>Lines 247 to 264, the body of the inner \<open>try\<close> for one name: the file id, or the
  exception raised. \<open>if file_id\<close> is a truth test as well.\<close>

definition resolve_name ::
  "bzr \<Rightarrow> tree \<Rightarrow> branch \<Rightarrow> string option \<Rightarrow> string \<Rightarrow> nat \<Rightarrow> string \<Rightarrow> error + string" where
  "resolve_name env t branch1 base_path rel_path i file_name =
     (case name_rpath env branch1 base_path rel_path i file_name of
        Inl e \<Rightarrow> Inl e
      | Inr rpath \<Rightarrow>
          (case path2id t rpath of
             Some file_id \<Rightarrow>
               if file_id \<noteq> [] then Inr file_id else Inl (unmatched env branch1 file_name)
           | None \<Rightarrow> Inl (unmatched env branch1 file_name)))"

text \<open>Lines 244 to 267, the loop: \<open>PathNotChild\<close> is caught and ends the loop, any other
  exception leaves it. The result is \<open>file_id_list\<close> and \<open>i\<close>.\<close>

fun get_tree_files_loop ::
  "bzr \<Rightarrow> tree \<Rightarrow> branch \<Rightarrow> string option \<Rightarrow> string \<Rightarrow> nat \<Rightarrow> string list \<Rightarrow> string list
     \<Rightarrow> error + (string list \<times> nat)" where
  "get_tree_files_loop env t branch1 base_path rel_path i file_id_list [] = Inr (file_id_list, i)"
| "get_tree_files_loop env t branch1 base_path rel_path i file_id_list (file_name # rest) =
     (case resolve_name env t branch1 base_path rel_path i file_name of
        Inr file_id \<Rightarrow>
          get_tree_files_loop env t branch1 base_path rel_path (Suc i) (file_id_list @ [file_id]) rest
      | Inl e \<Rightarrow> if is_PathNotChild e then Inr (file_id_list, i) else Inl e)"

definition get_tree_files ::
  "bzr \<Rightarrow> string list \<Rightarrow> world
     \<Rightarrow> (error + (branch \<times> tree \<times> string list \<times> string list)) \<times> world" where
  "get_tree_files env file_list w =
     (case open_first env file_list of
        Inl e \<Rightarrow> (Inl e, w)
      | Inr (branch1, t, rel_path, base_path) \<Rightarrow>
          (let w1 = emit (LockRead (t_name t)) w;
               r = get_tree_files_loop env t branch1 base_path rel_path 0 [] file_list;
               w2 = emit (Unlock (t_name t)) w1
           in case r of
                Inl e \<Rightarrow> (Inl e, w2)
              | Inr (file_id_list, i) \<Rightarrow> (Inr (branch1, t, file_id_list, drop i file_list), w2)))"

subsection \<open>get\_diffs\_or\_stop, get\_read\_locks, release\_read\_locks\<close>

text \<open>Lines 283 to 285, the comprehension that builds \<open>path_list\<close>: it reads the new tree
  only.\<close>

fun get_diffs_path_list :: "tree \<Rightarrow> string list \<Rightarrow> error + string list" where
  "get_diffs_path_list new_tree [] = Inr []"
| "get_diffs_path_list new_tree (file_id # rest) =
     (if has_id new_tree file_id then
        (case id2path new_tree file_id of
           Inl e \<Rightarrow> Inl e
         | Inr p \<Rightarrow>
             (case get_diffs_path_list new_tree rest of
                Inl e \<Rightarrow> Inl e | Inr ps \<Rightarrow> Inr (p # ps)))
      else get_diffs_path_list new_tree rest)"

definition delta_size :: "delta \<Rightarrow> nat" where
  "delta_size d = length (removed d) + length (added d) + length (renamed d) + length (modified d)"

definition get_diffs_or_stop ::
  "bzr \<Rightarrow> tree \<Rightarrow> tree \<Rightarrow> string list \<Rightarrow> world \<Rightarrow> (exn + delta) \<times> world" where
  "get_diffs_or_stop env old_tree new_tree file_id_list w =
     (case get_diffs_path_list new_tree file_id_list of
        Inl e \<Rightarrow> (Inl (Raised e), w)
      | Inr path_list \<Rightarrow>
          (let d = changes_from env new_tree old_tree path_list;
               w' = emit (ChangesFrom (t_name new_tree) (t_name old_tree) path_list d) w
           in if delta_size d = 0 then (Inl NoDifferencesFound, w') else (Inr d, w')))"

fun get_read_locks :: "tree list \<Rightarrow> world \<Rightarrow> world" where
  "get_read_locks [] w = w"
| "get_read_locks (t # ts) w = get_read_locks ts (emit (LockRead (t_name t)) w)"

fun release_read_locks :: "tree list \<Rightarrow> world \<Rightarrow> world" where
  "release_read_locks [] w = w"
| "release_read_locks (t # ts) w = release_read_locks ts (emit (Unlock (t_name t)) w)"

subsection \<open>compare\_using\<close>

text \<open>Lines 83 to 93: the second branch, if names were left over. \<open>rev1\<close> and \<open>rev2\<close>
  are \<open>None\<close> or a revision specifier.\<close>

definition second_branch ::
  "bzr \<Rightarrow> string list \<Rightarrow> string option \<Rightarrow> string option \<Rightarrow> world
     \<Rightarrow> (error + (branch \<times> tree \<times> string list) option) \<times> world" where
  "second_branch env remainder rev1 rev2 w =
     (if 0 < length remainder then
        (case get_tree_files env remainder w of
           (Inl e, w') \<Rightarrow> (Inl e, w')
         | (Inr (b2, work_tree2, file_ids2, remainder'), w') \<Rightarrow>
             if 0 < length remainder' then
               (Inl (BzrCommandError ''Cannot compare more than two branches''), w')
             else if rev1 \<noteq> None \<or> rev2 \<noteq> None then
               (Inl (BzrCommandError ''Cannot specify -r with multiple branches''), w')
             else (Inr (Some (b2, work_tree2, file_ids2)), w'))
      else (Inr None, w))"

definition trees_to_lock :: "tree \<Rightarrow> (branch \<times> tree \<times> string list) option \<Rightarrow> tree list" where
  "trees_to_lock work_tree1 snd_br =
     (case snd_br of None \<Rightarrow> [work_tree1] | Some (b2, work_tree2, file_ids2) \<Rightarrow> [work_tree1, work_tree2])"

text \<open>The locals fixed by lines 98 to 119.\<close>

record mode =
  in_subdir :: bool
  in_working_tree :: bool
  use_tree :: bool
  adjust_path :: string
  cleanup_cap :: "bool option"

definition choose_mode ::
  "tool \<Rightarrow> string list \<Rightarrow> tree \<Rightarrow> string list \<Rightarrow> bool \<Rightarrow> error + mode" where
  "choose_mode dtool file_list work_tree1 file_ids1 has_b2 =
     (case file_ids1 of
        [] \<Rightarrow> Inl IndexError
      | fid0 # _ \<Rightarrow>
          (case get_file_kind work_tree1 fid0 of
             Inl e \<Rightarrow> Inl e
           | Inr kind \<Rightarrow>
               (let subdir = (kind = ''directory'' \<or> kind = ''root_directory'');
                    ut = (if length file_list = 1 \<and> \<not> subdir then False
                          else if has_b2 \<and> \<not> subdir then False
                          else True)
                in case (if length file_list = 1 \<or> has_b2 then
                           (if subdir then id2path work_tree1 fid0
                            else (case file_list of
                                    [] \<Rightarrow> Inl IndexError | f0 # _ \<Rightarrow> Inr (basename f0)))
                         else Inr '''') of
                     Inl e \<Rightarrow> Inl e
                   | Inr ap \<Rightarrow>
                       Inr \<lparr>in_subdir = subdir, in_working_tree = t_is_working work_tree1,
                            use_tree = ut, adjust_path = ap,
                            cleanup_cap = supports dtool ''cleanup''\<rparr>)))"

text \<open>Lines 126 to 134: the old tree and the hint for its directory name.\<close>

definition choose_old ::
  "branch \<Rightarrow> tree \<Rightarrow> string option \<Rightarrow> bool \<Rightarrow> error + (tree \<times> string)" where
  "choose_old b1 work_tree1 rev1 has_b2 =
     (case rev1 of
        Some r \<Rightarrow>
          (case in_history b1 r of
             Inl e \<Rightarrow> Inl e
           | Inr (revno, rev_id) \<Rightarrow>
               (case revision_tree b1 rev_id of
                  Inl e \<Rightarrow> Inl e
                | Inr t \<Rightarrow> Inr (t, ''-rev'' @ str_nat revno)))
      | None \<Rightarrow>
          if has_b2 then Inr (work_tree1, ''-'' @ nick b1)
          else Inr (basis_tree b1, ''-basis''))"

text \<open>The three statements the source repeats at lines 144 to 146, 158 to 160, 166 to 168
  and 184 to 186: a new temporary directory, \<open>write_stuff\<close>, and the path inside it.\<close>

definition stage_tmp ::
  "os \<Rightarrow> string \<Rightarrow> bool option \<Rightarrow> tree \<Rightarrow> string list \<Rightarrow> bool \<Rightarrow> string \<Rightarrow> world
     \<Rightarrow> (error + string) \<times> world" where
  "stage_tmp sys hint cleanup_flag t file_ids use_tree_flag adjust w =
     (case NamedTemporaryDir_init sys ''bzr_diff-'' hint cleanup_flag True w of
        (Inl e, w1) \<Rightarrow> (Inl e, w1)
      | (Inr tmp_dir, w1) \<Rightarrow>
          (case write_stuff tmp_dir t file_ids use_tree_flag w1 of
             (Inl e, w2) \<Rightarrow> (Inl e, w2)
           | (Inr u, w2) \<Rightarrow> (Inr (pathjoin (path tmp_dir) adjust), w2)))"

text \<open>Lines 150 to 153, 172 to 175 and 179 to 182: a working tree is compared in place.\<close>

definition in_place :: "string list \<Rightarrow> tree \<Rightarrow> string list \<Rightarrow> error + string" where
  "in_place file_list work_tree file_ids =
     (if length file_list = 1 then
        (case file_ids of [] \<Rightarrow> Inl IndexError | fid0 # _ \<Rightarrow> id2abspath work_tree fid0)
      else Inr (abspath work_tree ''''))"

text \<open>After the delta (lines 142, 149, 156, 164, 171) comes the new side's path.\<close>

definition diff_then ::
  "bzr \<Rightarrow> tree \<Rightarrow> tree \<Rightarrow> string list \<Rightarrow> (world \<Rightarrow> (error + string) \<times> world) \<Rightarrow> world
     \<Rightarrow> (exn + (delta \<times> string)) \<times> world" where
  "diff_then env old_tree new_tree file_ids new_side w =
     (case get_diffs_or_stop env old_tree new_tree file_ids w of
        (Inl x, w1) \<Rightarrow> (Inl x, w1)
      | (Inr d, w1) \<Rightarrow>
          (case new_side w1 of
             (Inl e, w2) \<Rightarrow> (Inl (Raised e), w2)
           | (Inr new_path, w2) \<Rightarrow> (Inr (d, new_path), w2)))"

text \<open>Lines 140 to 175: the new tree, the delta and the new path. The branches are taken
  in the source's order: \<open>rev2\<close>, then a second branch with a working tree, a second
  branch without, no working tree at all, and a working tree in place.\<close>

definition stage_new ::
  "bzr \<Rightarrow> os \<Rightarrow> string list \<Rightarrow> branch \<Rightarrow> tree \<Rightarrow> string list
     \<Rightarrow> (branch \<times> tree \<times> string list) option \<Rightarrow> string option \<Rightarrow> mode \<Rightarrow> tree \<Rightarrow> world
     \<Rightarrow> (exn + (delta \<times> string)) \<times> world" where
  "stage_new env sys file_list b1 work_tree1 file_ids1 snd_br rev2 md old_tree w =
     (case rev2 of
        Some r \<Rightarrow>
          (case in_history b1 r of
             Inl e \<Rightarrow> (Inl (Raised e), w)
           | Inr (revno, rev_id) \<Rightarrow>
               (case revision_tree b1 rev_id of
                  Inl e \<Rightarrow> (Inl (Raised e), w)
                | Inr new_tree \<Rightarrow>
                    diff_then env old_tree new_tree file_ids1
                      (stage_tmp sys (''-rev'' @ str_nat revno) (cleanup_cap md) new_tree file_ids1
                         (use_tree md) (adjust_path md)) w))
      | None \<Rightarrow>
          (case snd_br of
             Some (b2, work_tree2, file_ids2) \<Rightarrow>
               if t_is_working work_tree2 then
                 diff_then env old_tree work_tree2 file_ids2
                   (\<lambda>w'. (in_place file_list work_tree2 file_ids2, w')) w
               else
                 diff_then env old_tree work_tree2 file_ids2
                   (stage_tmp sys (''-'' @ nick b2) (cleanup_cap md) work_tree2 file_ids2
                      (use_tree md) (adjust_path md)) w
           | None \<Rightarrow>
               if \<not> in_working_tree md then
                 diff_then env old_tree (basis_tree b1) file_ids1
                   (stage_tmp sys ''-basis'' (cleanup_cap md) (basis_tree b1) file_ids1
                      (use_tree md) (adjust_path md)) w
               else
                 diff_then env old_tree work_tree1 file_ids1
                   (\<lambda>w'. (in_place file_list work_tree1 file_ids1, w')) w))"

text \<open>Lines 178 to 186: the old path.\<close>

definition stage_old ::
  "os \<Rightarrow> string list \<Rightarrow> tree \<Rightarrow> string list \<Rightarrow> bool \<Rightarrow> mode \<Rightarrow> tree \<Rightarrow> string \<Rightarrow> world
     \<Rightarrow> (error + string) \<times> world" where
  "stage_old sys file_list work_tree1 file_ids1 has_b2 md old_tree old_hint w =
     (if has_b2 \<and> in_working_tree md then (in_place file_list work_tree1 file_ids1, w)
      else stage_tmp sys old_hint (cleanup_cap md) old_tree file_ids1
             (use_tree md) (adjust_path md) w)"

text \<open>Lines 199 to 206: the list for an iterative diff.\<close>

definition iter_path_list :: "string \<Rightarrow> delta \<Rightarrow> string list" where
  "iter_path_list adjust d =
     (if adjust \<noteq> '''' then
        [replace1 p adjust ''.''. (p, file_id, kind, text_mods, meta_mods) \<leftarrow> modified d, text_mods]
      else
        [p. (p, file_id, kind, text_mods, meta_mods) \<leftarrow> modified d, text_mods])"

text \<open>Lines 193 to 207: what \<open>tool.run\<close> gets as its third argument, if any.\<close>

definition run_args :: "tool \<Rightarrow> string list \<Rightarrow> mode \<Rightarrow> delta \<Rightarrow> string list option" where
  "run_args dtool file_list md d =
     (if truthy (supports dtool ''recursive'') then None
      else if length file_list = 1 \<and> \<not> in_subdir md then None
      else Some (iter_path_list (adjust_path md) d))"

text \<open>Lines 125 to 210, the body of the outer \<open>try\<close>. The locks taken at line 136 are given
  back in the \<open>finally\<close> of line 190 on every way out of the inner \<open>try\<close>; line 210
  replaces whatever the tool returned by 1.\<close>

definition compare_body ::
  "bzr \<Rightarrow> os \<Rightarrow> tool \<Rightarrow> string list \<Rightarrow> string option \<Rightarrow> string option \<Rightarrow> branch \<Rightarrow> tree
     \<Rightarrow> string list \<Rightarrow> (branch \<times> tree \<times> string list) option \<Rightarrow> mode \<Rightarrow> world
     \<Rightarrow> (exn + int) \<times> world" where
  "compare_body env sys dtool file_list rev1 rev2 b1 work_tree1 file_ids1 snd_br md w =
     (case choose_old b1 work_tree1 rev1 (snd_br \<noteq> None) of
        Inl e \<Rightarrow> (Inl (Raised e), w)
      | Inr (old_tree, old_hint) \<Rightarrow>
          (let locks = trees_to_lock work_tree1 snd_br;
               w1 = get_read_locks locks w
           in case stage_new env sys file_list b1 work_tree1 file_ids1 snd_br rev2 md old_tree w1 of
                (Inl x, w2) \<Rightarrow> (Inl x, release_read_locks locks w2)
              | (Inr (d, new_path), w2) \<Rightarrow>
                  (case stage_old sys file_list work_tree1 file_ids1 (snd_br \<noteq> None) md
                          old_tree old_hint w2 of
                     (Inl e, w3) \<Rightarrow> (Inl (Raised e), release_read_locks locks w3)
                   | (Inr old_path, w3) \<Rightarrow>
                       (case run_tool sys dtool old_path new_path (run_args dtool file_list md d)
                               (release_read_locks locks w3) of
                          (Inl e, w4) \<Rightarrow> (Inl (Raised e), w4)
                        | (Inr result, w4) \<Rightarrow> (Inr 1, w4)))))"

text \<open>\<open>compare_using(tool, file_list, rev1, rev2)\<close>. Lines 95 to 122 hold the locks around
  the choice of mode; \<open>NoDifferencesFound\<close> becomes the result 0, every other exception
  goes to the caller. The temporary directories are local objects: their destructors run
  when the interpreter drops them after the return, which is \<open>del_NamedTemporaryDir\<close> and
  not part of this function's log.\<close>

definition compare_using ::
  "bzr \<Rightarrow> os \<Rightarrow> tool \<Rightarrow> string list \<Rightarrow> string option \<Rightarrow> string option \<Rightarrow> world
     \<Rightarrow> (error + int) \<times> world" where
  "compare_using env sys dtool file_list rev1 rev2 w =
     (case get_tree_files env file_list w of
        (Inl e, w1) \<Rightarrow> (Inl e, w1)
      | (Inr (b1, work_tree1, file_ids1, remainder), w1) \<Rightarrow>
          (case second_branch env remainder rev1 rev2 w1 of
             (Inl e, w2) \<Rightarrow> (Inl e, w2)
           | (Inr snd_br, w2) \<Rightarrow>
               (let locks = trees_to_lock work_tree1 snd_br;
                    w3 = get_read_locks locks w2;
                    m = choose_mode dtool file_list work_tree1 file_ids1 (snd_br \<noteq> None);
                    w4 = release_read_locks locks w3
                in case m of
                     Inl e \<Rightarrow> (Inl e, w4)
                   | Inr md \<Rightarrow>
                       (case compare_body env sys dtool file_list rev1 rev2 b1 work_tree1 file_ids1
                               snd_br md w4 of
                          (Inl NoDifferencesFound, w5) \<Rightarrow> (Inr 0, w5)
                        | (Inl (Raised e), w5) \<Rightarrow> (Inl e, w5)
                        | (Inr result, w5) \<Rightarrow> (Inr result, w5)))))"

section \<open>Reading the log\<close>

text \<open>
  The log is newest first, so the tail of a list is what happened before its head.
  \<open>since w w'\<close> is what was logged between the worlds \<open>w\<close> and \<open>w'\<close>; \<open>held\<close>
  counts the read locks taken and not yet given back.
\<close>

definition since :: "world \<Rightarrow> world \<Rightarrow> event list" where
  "since w w' = take (length (trace w') - length (trace w)) (trace w')"

fun held :: "event list \<Rightarrow> int" where
  "held [] = 0"
| "held (LockRead n # older) = held older + 1"
| "held (Unlock n # older) = held older - 1"
| "held (e # older) = held older"

fun is_lock :: "event \<Rightarrow> bool" where
  "is_lock (LockRead n) = True"
| "is_lock e = False"

fun is_unlock :: "event \<Rightarrow> bool" where
  "is_unlock (Unlock n) = True"
| "is_unlock e = False"

text \<open>Snapshot content going into a staging directory: an export or a file written.\<close>

fun is_write :: "event \<Rightarrow> bool" where
  "is_write (Export n p) = True"
| "is_write (WriteFile p b) = True"
| "is_write e = False"

fun is_mkdtemp :: "event \<Rightarrow> bool" where
  "is_mkdtemp (MkDTemp p) = True"
| "is_mkdtemp e = False"

fun is_run :: "event \<Rightarrow> bool" where
  "is_run (RunTool p q l) = True"
| "is_run e = False"

text \<open>The deltas bzrlib answered, newest first.\<close>

fun deltas :: "event list \<Rightarrow> delta list" where
  "deltas [] = []"
| "deltas (ChangesFrom n m ps d # older) = d # deltas older"
| "deltas (e # older) = deltas older"

text \<open>The path lists bzrlib was asked to restrict a delta to, newest first.\<close>

fun restrictions :: "event list \<Rightarrow> string list list" where
  "restrictions [] = []"
| "restrictions (ChangesFrom n m ps d # older) = ps # restrictions older"
| "restrictions (e # older) = restrictions older"

text \<open>Every write into a staging directory happened with no read lock held.\<close>

fun writes_unlocked :: "event list \<Rightarrow> bool" where
  "writes_unlocked [] = True"
| "writes_unlocked (e # older) = ((is_write e \<longrightarrow> held older = 0) \<and> writes_unlocked older)"

text \<open>Every write into a staging directory happened with a read lock held.\<close>

fun writes_locked :: "event list \<Rightarrow> bool" where
  "writes_locked [] = True"
| "writes_locked (e # older) = ((is_write e \<longrightarrow> 0 < held older) \<and> writes_locked older)"

text \<open>Every start of the external tool happened with no read lock held.\<close>

fun runs_unlocked :: "event list \<Rightarrow> bool" where
  "runs_unlocked [] = True"
| "runs_unlocked (e # older) = ((is_run e \<longrightarrow> held older = 0) \<and> runs_unlocked older)"

section \<open>The shape of the log\<close>

text \<open>Events of the file system: a staging directory made, emptied, filled or protected.\<close>

fun is_fs :: "event \<Rightarrow> bool" where
  "is_fs (MkDTemp p) = True"
| "is_fs (DeleteAny p) = True"
| "is_fs (Export n p) = True"
| "is_fs (WriteFile p b) = True"
| "is_fs (MakeReadonly p) = True"
| "is_fs e = False"

text \<open>
  What lines 140 to 175 can leave in the log, by outcome: nothing when the path list
  could not be built; one delta when the trees do not differ; one delta followed by file
  system events when staging the new side failed or succeeded.
\<close>

inductive staged_new :: "(exn + (delta \<times> string)) \<Rightarrow> event list \<Rightarrow> bool" where
  no_list: "staged_new (Inl (Raised e)) []"
| same: "delta_size d = 0 \<Longrightarrow> staged_new (Inl NoDifferencesFound) [ChangesFrom n m ps d]"
| failed: "delta_size d \<noteq> 0 \<Longrightarrow> \<forall>e\<in>set F. is_fs e \<Longrightarrow>
           staged_new (Inl (Raised e)) (F @ [ChangesFrom n m ps d])"
| staged: "delta_size d \<noteq> 0 \<Longrightarrow> \<forall>e\<in>set F. is_fs e \<Longrightarrow>
           staged_new (Inr (d, p)) (F @ [ChangesFrom n m ps d])"

text \<open>
  What the body of the outer \<open>try\<close> can leave in the log, for the trees named \<open>ns\<close>:
  nothing when the old tree could not be chosen, and otherwise the locks, at most one
  delta, the staging events, the unlocks and, last, at most one start of the tool.
\<close>

inductive body_events :: "string list \<Rightarrow> (exn + int) \<Rightarrow> event list \<Rightarrow> bool" where
  early: "body_events ns (Inl (Raised e)) []"
| no_delta: "body_events ns (Inl (Raised e)) (map Unlock (rev ns) @ map LockRead (rev ns))"
| no_diff: "delta_size d = 0 \<Longrightarrow>
     body_events ns (Inl NoDifferencesFound)
       (map Unlock (rev ns) @ ChangesFrom n m ps d # map LockRead (rev ns))"
| stage_err: "delta_size d \<noteq> 0 \<Longrightarrow> \<forall>e\<in>set F. is_fs e \<Longrightarrow>
     body_events ns (Inl (Raised e))
       (map Unlock (rev ns) @ F @ ChangesFrom n m ps d # map LockRead (rev ns))"
| ran: "delta_size d \<noteq> 0 \<Longrightarrow> \<forall>e\<in>set F. is_fs e \<Longrightarrow> r = Inr 1 \<or> (\<exists>e. r = Inl (Raised e)) \<Longrightarrow>
     body_events ns r
       (RunTool p q l # map Unlock (rev ns) @ F @ ChangesFrom n m ps d # map LockRead (rev ns))"

text \<open>The events before the body: locks taken and given back, in balance.\<close>

definition prelude :: "event list \<Rightarrow> bool" where
  "prelude P = ((\<forall>e\<in>set P. is_lock e \<or> is_unlock e) \<and> held P = 0)"

text \<open>Lines 212 to 215: how the body's outcome becomes the result of \<open>compare_using\<close>.\<close>

definition outcome :: "exn + int \<Rightarrow> error + int" where
  "outcome rb = (case rb of Inl NoDifferencesFound \<Rightarrow> Inr 0 | Inl (Raised e) \<Rightarrow> Inl e | Inr x \<Rightarrow> Inr x)"

section \<open>Example repository\<close>

text \<open>
  Two local branches with working trees under \<open>/br1\<close> and \<open>/br2\<close>, each holding
  \<open>a.txt\<close> and \<open>sub/data.txt\<close>, and a remote branch \<open>http://host/br3\<close> without a
  working tree. \<open>ex_rev2\<close> is a revision tree in which \<open>sub/data.txt\<close> does not exist.
  \<open>ex_changes_from\<close> stands in for bzrlib's delta: the files at or below the given paths
  whose text differs between the two trees.
\<close>

definition ex_inventory :: "string \<Rightarrow> string \<Rightarrow> entry list" where
  "ex_inventory a_text d_text =
     [\<lparr>e_id = ''TREE_ROOT'', e_path = '''', e_kind = ''root_directory'', e_text = ''''\<rparr>,
      \<lparr>e_id = ''a-id'', e_path = ''a.txt'', e_kind = ''file'', e_text = a_text\<rparr>,
      \<lparr>e_id = ''sub-id'', e_path = ''sub'', e_kind = ''directory'', e_text = ''''\<rparr>,
      \<lparr>e_id = ''d-id'', e_path = ''sub/data.txt'', e_kind = ''file'', e_text = d_text\<rparr>]"

definition ex_wt1 :: tree where
  "ex_wt1 = \<lparr>t_name = ''wt1'', t_is_working = True, t_basedir = ''/br1'',
             t_root_id = ''TREE_ROOT'', inventory = ex_inventory ''one'' ''x''\<rparr>"

definition ex_basis1 :: tree where
  "ex_basis1 = \<lparr>t_name = ''basis1'', t_is_working = False, t_basedir = '''',
                t_root_id = ''TREE_ROOT'', inventory = ex_inventory ''zero'' ''w''\<rparr>"

definition ex_wt2 :: tree where
  "ex_wt2 = \<lparr>t_name = ''wt2'', t_is_working = True, t_basedir = ''/br2'',
             t_root_id = ''TREE_ROOT'', inventory = ex_inventory ''one'' ''y''\<rparr>"

definition ex_basis2 :: tree where
  "ex_basis2 = \<lparr>t_name = ''basis2'', t_is_working = False, t_basedir = '''',
                t_root_id = ''TREE_ROOT'', inventory = ex_inventory ''one'' ''y''\<rparr>"

definition ex_br1 :: branch where
  "ex_br1 = \<lparr>base = ''/br1/'', nick = ''br1'', basis_tree = ex_basis1,
             in_history = (\<lambda>r. if r = ''1'' then Inr (1, ''r1'') else Inl NoSuchRevision),
             revision_tree = (\<lambda>i. if i = ''r1'' then Inr ex_basis1 else Inl NoSuchRevision)\<rparr>"

definition ex_br2 :: branch where
  "ex_br2 = \<lparr>base = ''/br2/'', nick = ''br2'', basis_tree = ex_basis2,
             in_history = (\<lambda>r. if r = ''1'' then Inr (1, ''s1'') else Inl NoSuchRevision),
             revision_tree = (\<lambda>i. if i = ''s1'' then Inr ex_basis2 else Inl NoSuchRevision)\<rparr>"

definition ex_basis3 :: tree where
  "ex_basis3 = \<lparr>t_name = ''basis3'', t_is_working = False, t_basedir = '''',
                t_root_id = ''TREE_ROOT'', inventory = ex_inventory ''one'' ''x''\<rparr>"

definition ex_br3 :: branch where
  "ex_br3 = \<lparr>base = ''http://host/br3/'', nick = ''br3'', basis_tree = ex_basis3,
             in_history = (\<lambda>r. Inl NoSuchRevision),
             revision_tree = (\<lambda>i. Inl NoSuchRevision)\<rparr>"

definition ex_rev2 :: tree where
  "ex_rev2 = \<lparr>t_name = ''rev2'', t_is_working = False, t_basedir = '''',
              t_root_id = ''TREE_ROOT'',
              inventory = [\<lparr>e_id = ''TREE_ROOT'', e_path = '''', e_kind = ''root_directory'',
                            e_text = ''''\<rparr>,
                           \<lparr>e_id = ''a-id'', e_path = ''a.txt'', e_kind = ''file'',
                            e_text = ''one''\<rparr>]\<rparr>"

definition ex_changes_from :: "tree \<Rightarrow> tree \<Rightarrow> string list \<Rightarrow> delta" where
  "ex_changes_from new_tree old_tree ps =
     \<lparr>removed = [], added = [], renamed = [],
      modified = [(e_path e, e_id e, e_kind e, True, False). e \<leftarrow> inventory new_tree,
                    e_kind e = ''file'',
                    list_ex (\<lambda>p. p = e_path e \<or> take (length p + 1) (e_path e) = p @ ''/'') ps,
                    get_file old_tree (e_id e) \<noteq> Inr (e_text e)]\<rparr>"

definition ex_env :: bzr where
  "ex_env =
     \<lparr>wt_open_containing = (\<lambda>p. if take 4 p = ''/br1'' then Inr (ex_wt1, ex_br1, drop 5 p)
                                else if take 4 p = ''/br2'' then Inr (ex_wt2, ex_br2, drop 5 p)
                                else if take 7 p = ''http://'' then Inl NotLocalUrl
                                else Inl (NotBranchError p)),
      br_open_containing = (\<lambda>p. if take 4 p = ''/br1'' then Inr (ex_br1, drop 5 p)
                                else if take 4 p = ''/br2'' then Inr (ex_br2, drop 5 p)
                                else if take 15 p = ''http://host/br3'' then Inr (ex_br3, drop 16 p)
                                else Inl (NotBranchError p)),
      normpath = (\<lambda>p. if endswith p ''/'' then butlast p else p),
      relpath = (\<lambda>b p. if take (length b + 1) p = b @ ''/'' then Inr (drop (length b + 1) p)
                        else Inl (PathNotChild p b)),
      is_local = (\<lambda>p. take 1 p = ''/''),
      changes_from = ex_changes_from\<rparr>"

definition ex_os :: os where
  "ex_os = \<lparr>tmp_root = ''/tmp'', tmp_rand = (\<lambda>n. Some (str_nat n)), rmtree_ok = (\<lambda>p. True),
            tool_exit = (\<lambda>c p q l. Inr 0)\<rparr>"

definition ex_w0 :: world where
  "ex_w0 = \<lparr>trace = [], made = 0, disk = {}\<rparr>"

definition ex_vimdiff :: tool where
  "ex_vimdiff = \<lparr>command = ''vimdiff'', options = '''',
      capabilities = [''diff'' \<mapsto> True, ''interactive'' \<mapsto> True, ''cleanup'' \<mapsto> True,
                      ''recursive'' \<mapsto> False]\<rparr>"


text \<open>The worlds the example invocations end in.\<close>

definition ex_after_file :: world where
  "ex_after_file =
     \<lparr>trace = [RunTool ''/tmp/bzr_diff-0-basis_tmp/a.txt'' ''/br1/a.txt'' None,
               Unlock ''wt1'', MakeReadonly ''/tmp/bzr_diff-0-basis_tmp'',
               WriteFile ''/tmp/bzr_diff-0-basis_tmp/a.txt'' ''zero'',
               MkDTemp ''/tmp/bzr_diff-0-basis_tmp'',
               ChangesFrom ''wt1'' ''basis1'' [''a.txt'']
                 \<lparr>removed = [], added = [], renamed = [],
                  modified = [(''a.txt'', ''a-id'', ''file'', True, False)]\<rparr>,
               LockRead ''wt1'', Unlock ''wt1'', LockRead ''wt1'', Unlock ''wt1'',
               LockRead ''wt1''],
      made = 1, disk = {''/tmp/bzr_diff-0-basis_tmp''}\<rparr>"

definition ex_after_same :: world where
  "ex_after_same =
     \<lparr>trace = [Unlock ''wt2'', Unlock ''wt1'',
               ChangesFrom ''wt2'' ''wt1'' [''a.txt'']
                 \<lparr>removed = [], added = [], renamed = [], modified = []\<rparr>,
               LockRead ''wt2'', LockRead ''wt1'', Unlock ''wt2'', Unlock ''wt1'',
               LockRead ''wt2'', LockRead ''wt1'', Unlock ''wt2'', LockRead ''wt2'',
               Unlock ''wt1'', LockRead ''wt1''],
      made = 0, disk = {}\<rparr>"

definition ex_after_usage :: world where
  "ex_after_usage =
     \<lparr>trace = [Unlock ''wt2'', LockRead ''wt2'', Unlock ''wt1'', LockRead ''wt1''],
      made = 0, disk = {}\<rparr>"

definition ex_after_data :: world where
  "ex_after_data =
     \<lparr>trace = [RunTool ''/br1/'' ''/br2/'' (Some [''sub/.'']), Unlock ''wt2'', Unlock ''wt1'',
               ChangesFrom ''wt2'' ''wt1'' [''sub/data.txt'']
                 \<lparr>removed = [], added = [], renamed = [],
                  modified = [(''sub/data.txt'', ''d-id'', ''file'', True, False)]\<rparr>,
               LockRead ''wt2'', LockRead ''wt1'', Unlock ''wt2'', Unlock ''wt1'',
               LockRead ''wt2'', LockRead ''wt1'', Unlock ''wt2'', LockRead ''wt2'',
               Unlock ''wt1'', LockRead ''wt1''],
      made = 0, disk = {}\<rparr>"


definition ex_locked_once :: world where
  "ex_locked_once = \<lparr>trace = [Unlock ''wt1'', LockRead ''wt1''], made = 0, disk = {}\<rparr>"

section \<open>Properties of NamedTemporaryDir\<close>

lemma endswith_append: "endswith (xs @ suf) suf"
  by (simp add: endswith_def)

lemma mkdtemp_marker:
  "mkdtemp sys pre (suf @ m) w = (Inr p, w') \<Longrightarrow> endswith p m"
proof -
  assume a: "mkdtemp sys pre (suf @ m) w = (Inr p, w')"
  then obtain r where "p = (tmp_root sys @ ''/'' @ pre @ r @ suf) @ m"
    by (auto simp: mkdtemp_def Let_def split: option.splits)
  then show ?thesis using endswith_append by metis
qed

lemma init_marker:
  "NamedTemporaryDir_init sys pre suf c ro w = (Inr self, w') \<Longrightarrow> endswith (path self) ''_tmp''"
  by (auto simp: NamedTemporaryDir_init_def split: prod.splits sum.splits dest: mkdtemp_marker)

lemma init_cleaned:
  "NamedTemporaryDir_init sys pre suf c ro w = (Inr self, w') \<Longrightarrow> cleaned self = (\<not> truthy c)"
  by (auto simp: NamedTemporaryDir_init_def split: prod.splits sum.splits)

lemma cleanup_keeps_path: "path (fst (snd (cleanup sys self w))) = path self"
  by (simp add: cleanup_def Let_def split: prod.splits)

lemma cleanup_sets_cleaned:
  "endswith (path self) ''_tmp'' \<Longrightarrow> cleaned (fst (snd (cleanup sys self w)))"
  by (simp add: cleanup_def Let_def split: prod.splits)

lemma cleanup_when_cleaned:
  "endswith (path self) ''_tmp'' \<Longrightarrow> cleaned self \<Longrightarrow> cleanup sys self w = (Inr (), self, w)"
  by (simp add: cleanup_def)

text \<open>
  C8. Disposal is idempotent. Take any staging area as its constructor made it, whatever
  the cleanup flag, and call \<open>cleanup\<close> once, in any later world, whether the removal then
  succeeds or the operating system refuses it. A second \<open>cleanup\<close> on the same area, again
  in any world, raises nothing and leaves that world as it was: no further removal is
  attempted (the log gains no entry) and the disk is unchanged.
\<close>

theorem cleanup_idempotent:
  assumes "NamedTemporaryDir_init sys pre suf c ro w0 = (Inr self, w1)"
    and "cleanup sys self w = (r, self', w')"
  shows "cleanup sys self' w'' = (Inr (), self', w'')"
proof -
  have m: "endswith (path self) ''_tmp''" using assms(1) by (rule init_marker)
  have s: "self' = fst (snd (cleanup sys self w))" using assms(2) by simp
  have "endswith (path self') ''_tmp''" using m s cleanup_keeps_path by metis
  moreover have "cleaned self'" using m s cleanup_sets_cleaned by metis
  ultimately show ?thesis by (rule cleanup_when_cleaned)
qed

theorem cleanup_idempotent_witness:
  "NamedTemporaryDir_init
     \<lparr>tmp_root = ''/tmp'', tmp_rand = (\<lambda>n. Some ''k3''), rmtree_ok = (\<lambda>p. True),
       tool_exit = (\<lambda>c p q l. Inr 0)\<rparr>
     ''bzr_diff-'' ''-basis'' (Some True) True \<lparr>trace = [], made = 0, disk = {}\<rparr>
     = (Inr \<lparr>path = ''/tmp/bzr_diff-k3-basis_tmp'', readonly = True, cleaned = False\<rparr>,
        \<lparr>trace = [MkDTemp ''/tmp/bzr_diff-k3-basis_tmp''], made = 1,
         disk = {''/tmp/bzr_diff-k3-basis_tmp''}\<rparr>)
   \<and> cleanup
     \<lparr>tmp_root = ''/tmp'', tmp_rand = (\<lambda>n. Some ''k3''), rmtree_ok = (\<lambda>p. True),
       tool_exit = (\<lambda>c p q l. Inr 0)\<rparr>
     \<lparr>path = ''/tmp/bzr_diff-k3-basis_tmp'', readonly = True, cleaned = False\<rparr>
     \<lparr>trace = [MkDTemp ''/tmp/bzr_diff-k3-basis_tmp''], made = 1,
      disk = {''/tmp/bzr_diff-k3-basis_tmp''}\<rparr>
     = (Inr (), \<lparr>path = ''/tmp/bzr_diff-k3-basis_tmp'', readonly = True, cleaned = True\<rparr>,
        \<lparr>trace = [RmTree ''/tmp/bzr_diff-k3-basis_tmp'', MkDTemp ''/tmp/bzr_diff-k3-basis_tmp''],
         made = 1, disk = {}\<rparr>)
   \<and> cleanup
     \<lparr>tmp_root = ''/tmp'', tmp_rand = (\<lambda>n. Some ''k3''), rmtree_ok = (\<lambda>p. True),
       tool_exit = (\<lambda>c p q l. Inr 0)\<rparr>
     \<lparr>path = ''/tmp/bzr_diff-k3-basis_tmp'', readonly = True, cleaned = True\<rparr>
     \<lparr>trace = [RmTree ''/tmp/bzr_diff-k3-basis_tmp'', MkDTemp ''/tmp/bzr_diff-k3-basis_tmp''],
      made = 1, disk = {}\<rparr>
     = (Inr (), \<lparr>path = ''/tmp/bzr_diff-k3-basis_tmp'', readonly = True, cleaned = True\<rparr>,
        \<lparr>trace = [RmTree ''/tmp/bzr_diff-k3-basis_tmp'', MkDTemp ''/tmp/bzr_diff-k3-basis_tmp''],
         made = 1, disk = {}\<rparr>)"
proof -
  let ?sys = "\<lparr>tmp_root = ''/tmp'', tmp_rand = (\<lambda>n. Some ''k3''), rmtree_ok = (\<lambda>p. True),
       tool_exit = (\<lambda>c p q l. Inr 0)\<rparr>"
  have h1: "NamedTemporaryDir_init ?sys
     ''bzr_diff-'' ''-basis'' (Some True) True \<lparr>trace = [], made = 0, disk = {}\<rparr>
     = (Inr \<lparr>path = ''/tmp/bzr_diff-k3-basis_tmp'', readonly = True, cleaned = False\<rparr>,
        \<lparr>trace = [MkDTemp ''/tmp/bzr_diff-k3-basis_tmp''], made = 1,
         disk = {''/tmp/bzr_diff-k3-basis_tmp''}\<rparr>)"
    by (simp add: NamedTemporaryDir_init_def mkdtemp_def emit_def Let_def)
  have h2: "cleanup ?sys
     \<lparr>path = ''/tmp/bzr_diff-k3-basis_tmp'', readonly = True, cleaned = False\<rparr>
     \<lparr>trace = [MkDTemp ''/tmp/bzr_diff-k3-basis_tmp''], made = 1,
      disk = {''/tmp/bzr_diff-k3-basis_tmp''}\<rparr>
     = (Inr (), \<lparr>path = ''/tmp/bzr_diff-k3-basis_tmp'', readonly = True, cleaned = True\<rparr>,
        \<lparr>trace = [RmTree ''/tmp/bzr_diff-k3-basis_tmp'', MkDTemp ''/tmp/bzr_diff-k3-basis_tmp''],
         made = 1, disk = {}\<rparr>)"
    by (simp add: cleanup_def rmtree_def emit_def endswith_def)
  show ?thesis
    using h1 h2 cleanup_idempotent [OF h1 h2,
        of "\<lparr>trace = [RmTree ''/tmp/bzr_diff-k3-basis_tmp'', MkDTemp ''/tmp/bzr_diff-k3-basis_tmp''],
            made = 1, disk = {}\<rparr>"]
    by simp
qed

text \<open>
  C9. Whatever the \<open>path\<close> field holds, and whatever the \<open>cleaned\<close> flag says, a path
  that does not end in the marker \<open>_tmp\<close> makes \<open>cleanup\<close> raise \<open>BzrError\<close> and leave
  both the object and the world untouched: nothing is removed and no removal is attempted.
\<close>

theorem cleanup_refuses_unmarked:
  assumes "\<not> endswith (path self) ''_tmp''"
  shows "cleanup sys self w =
           (Inl (BzrError (''attempted to delete a non-tmp directory: '' @ path self)), self, w)"
  using assms by (simp add: cleanup_def)

theorem cleanup_refuses_unmarked_witness:
  "\<not> endswith (path \<lparr>path = ''/home/me/project'', readonly = True, cleaned = False\<rparr>) ''_tmp''
   \<and> cleanup \<lparr>tmp_root = ''/tmp'', tmp_rand = (\<lambda>n. None), rmtree_ok = (\<lambda>p. True),
       tool_exit = (\<lambda>c p q l. Inr 0)\<rparr>
        \<lparr>path = ''/home/me/project'', readonly = True, cleaned = False\<rparr>
        \<lparr>trace = [], made = 0, disk = {''/home/me/project''}\<rparr>
     = (Inl (BzrError ''attempted to delete a non-tmp directory: /home/me/project''),
        \<lparr>path = ''/home/me/project'', readonly = True, cleaned = False\<rparr>,
        \<lparr>trace = [], made = 0, disk = {''/home/me/project''}\<rparr>)"
proof -
  have h: "\<not> endswith (path \<lparr>path = ''/home/me/project'', readonly = True, cleaned = False\<rparr>) ''_tmp''"
    by (simp add: endswith_def)
  show ?thesis
    using h cleanup_refuses_unmarked [OF h,
        of "\<lparr>tmp_root = ''/tmp'', tmp_rand = (\<lambda>n. None), rmtree_ok = (\<lambda>p. True),
       tool_exit = (\<lambda>c p q l. Inr 0)\<rparr>"
           "\<lparr>trace = [], made = 0, disk = {''/home/me/project''}\<rparr>"]
    by simp
qed

lemma disposals_when_cleaned:
  "endswith (path self) ''_tmp'' \<Longrightarrow> cleaned self \<Longrightarrow> disposals sys ds self w = (self, w)"
  by (induction ds) (simp_all add: del_NamedTemporaryDir_def cleanup_when_cleaned)

text \<open>
  C10. An area created with cleanup disabled (the flag \<open>False\<close>, or a capability that
  was never set) is on disk after creation, and no sequence of explicit \<open>cleanup\<close> calls
  and destructor runs, started in any later world, changes that world: the directory is
  never removed and no removal is attempted.
\<close>

theorem no_cleanup_keeps_directory:
  assumes "NamedTemporaryDir_init sys pre suf c ro w0 = (Inr self, w1)"
    and "\<not> truthy c"
  shows "path self \<in> disk w1 \<and> disposals sys ds self w = (self, w)"
proof -
  have "endswith (path self) ''_tmp''" using assms(1) by (rule init_marker)
  moreover have "cleaned self" using assms init_cleaned by metis
  ultimately have "disposals sys ds self w = (self, w)" by (rule disposals_when_cleaned)
  moreover have "path self \<in> disk w1"
    using assms(1)
    by (auto simp: NamedTemporaryDir_init_def mkdtemp_def emit_def Let_def
             split: prod.splits sum.splits option.splits)
  ultimately show ?thesis by simp
qed

theorem no_cleanup_keeps_directory_witness:
  "NamedTemporaryDir_init
     \<lparr>tmp_root = ''/tmp'', tmp_rand = (\<lambda>n. Some ''q7''), rmtree_ok = (\<lambda>p. True),
       tool_exit = (\<lambda>c p q l. Inr 0)\<rparr>
     ''bzr_diff-'' ''-rev4'' (Some False) True \<lparr>trace = [], made = 0, disk = {}\<rparr>
     = (Inr \<lparr>path = ''/tmp/bzr_diff-q7-rev4_tmp'', readonly = True, cleaned = True\<rparr>,
        \<lparr>trace = [MkDTemp ''/tmp/bzr_diff-q7-rev4_tmp''], made = 1,
         disk = {''/tmp/bzr_diff-q7-rev4_tmp''}\<rparr>)
   \<and> \<not> truthy (Some False)
   \<and> disposals
        \<lparr>tmp_root = ''/tmp'', tmp_rand = (\<lambda>n. Some ''q7''), rmtree_ok = (\<lambda>p. True),
       tool_exit = (\<lambda>c p q l. Inr 0)\<rparr>
        [True, False]
        \<lparr>path = ''/tmp/bzr_diff-q7-rev4_tmp'', readonly = True, cleaned = True\<rparr>
        \<lparr>trace = [MkDTemp ''/tmp/bzr_diff-q7-rev4_tmp''], made = 1,
         disk = {''/tmp/bzr_diff-q7-rev4_tmp''}\<rparr>
     = (\<lparr>path = ''/tmp/bzr_diff-q7-rev4_tmp'', readonly = True, cleaned = True\<rparr>,
        \<lparr>trace = [MkDTemp ''/tmp/bzr_diff-q7-rev4_tmp''], made = 1,
         disk = {''/tmp/bzr_diff-q7-rev4_tmp''}\<rparr>)"
proof -
  let ?sys = "\<lparr>tmp_root = ''/tmp'', tmp_rand = (\<lambda>n. Some ''q7''), rmtree_ok = (\<lambda>p. True),
       tool_exit = (\<lambda>c p q l. Inr 0)\<rparr>"
  have h1: "NamedTemporaryDir_init ?sys
     ''bzr_diff-'' ''-rev4'' (Some False) True \<lparr>trace = [], made = 0, disk = {}\<rparr>
     = (Inr \<lparr>path = ''/tmp/bzr_diff-q7-rev4_tmp'', readonly = True, cleaned = True\<rparr>,
        \<lparr>trace = [MkDTemp ''/tmp/bzr_diff-q7-rev4_tmp''], made = 1,
         disk = {''/tmp/bzr_diff-q7-rev4_tmp''}\<rparr>)"
    by (simp add: NamedTemporaryDir_init_def mkdtemp_def emit_def Let_def)
  have h2: "\<not> truthy (Some False)" by simp
  show ?thesis
    using h1 h2 no_cleanup_keeps_directory [OF h1 h2, of "[True, False]"
        "\<lparr>trace = [MkDTemp ''/tmp/bzr_diff-q7-rev4_tmp''], made = 1,
          disk = {''/tmp/bzr_diff-q7-rev4_tmp''}\<rparr>"]
    by simp
qed

section \<open>The log of an invocation\<close>

lemma trace_emit [simp]: "trace (emit e w) = e # trace w"
  by (simp add: emit_def)

lemma since_ext: "trace w' = evs @ trace w \<Longrightarrow> since w w' = evs"
  by (simp add: since_def)

lemma held_append: "held (a @ b) = held a + held b"
proof (induction a)
  case Nil
  then show ?case by simp
next
  case (Cons e a)
  then show ?case by (cases e) simp_all
qed

lemma deltas_append: "deltas (a @ b) = deltas a @ deltas b"
proof (induction a)
  case Nil
  then show ?case by simp
next
  case (Cons e a)
  then show ?case by (cases e) simp_all
qed

lemma write_tree_trace:
  "write_tree self t ids w = (r, w') \<Longrightarrow> \<exists>F. trace w' = F @ trace w \<and> (\<forall>e\<in>set F. is_fs e)"
  by (auto simp: write_tree_def make_readonly_def Let_def emit_def)

lemma write_files_loop_trace:
  "write_files_loop self t ids w = (r, w') \<Longrightarrow> \<exists>F. trace w' = F @ trace w \<and> (\<forall>e\<in>set F. is_fs e)"
proof (induction ids arbitrary: w)
  case Nil
  then show ?case by simp
next
  case (Cons fid ids)
  show ?case
  proof (cases "has_id t fid")
    case False
    with Cons show ?thesis by simp
  next
    case True
    show ?thesis
    proof (cases "id2path t fid")
      case (Inl e)
      with True Cons.prems show ?thesis by simp
    next
      case p: (Inr p)
      show ?thesis
      proof (cases "get_file t fid")
        case (Inl e)
        with True p Cons.prems show ?thesis by simp
      next
        case (Inr bytes)
        let ?w1 = "emit (WriteFile (pathjoin (path self) (basename p)) bytes) w"
        from True p Inr Cons.prems have "write_files_loop self t ids ?w1 = (r, w')" by simp
        from Cons.IH [OF this] obtain F where
          "trace w' = F @ trace ?w1" "\<forall>e\<in>set F. is_fs e" by blast
        then have "trace w' = (F @ [WriteFile (pathjoin (path self) (basename p)) bytes]) @ trace w
                   \<and> (\<forall>e\<in>set (F @ [WriteFile (pathjoin (path self) (basename p)) bytes]). is_fs e)"
          by simp
        then show ?thesis by blast
      qed
    qed
  qed
qed

lemma write_files_trace:
  assumes "write_files self t ids w = (r, w')"
  shows "\<exists>F. trace w' = F @ trace w \<and> (\<forall>e\<in>set F. is_fs e)"
proof -
  obtain r1 w1 where l: "write_files_loop self t ids w = (r1, w1)" by (cases "write_files_loop self t ids w")
  from write_files_loop_trace [OF l] obtain F where F: "trace w1 = F @ trace w" "\<forall>e\<in>set F. is_fs e"
    by blast
  show ?thesis
  proof (cases r1)
    case (Inl e)
    with assms l have "w' = w1" by (simp add: write_files_def)
    with F show ?thesis by blast
  next
    case (Inr u)
    with assms l have "w' = make_readonly self w1" by (simp add: write_files_def)
    with F have "trace w' = ((if readonly self then [MakeReadonly (path self)] else []) @ F) @ trace w
        \<and> (\<forall>e\<in>set ((if readonly self then [MakeReadonly (path self)] else []) @ F). is_fs e)"
      by (simp add: make_readonly_def)
    then show ?thesis by blast
  qed
qed

lemma write_stuff_trace:
  "write_stuff self t ids ut w = (r, w') \<Longrightarrow> \<exists>F. trace w' = F @ trace w \<and> (\<forall>e\<in>set F. is_fs e)"
  by (cases ut) (simp_all add: write_stuff_def write_tree_trace write_files_trace)

lemma init_trace:
  "NamedTemporaryDir_init sys pre suf c ro w = (r, w') \<Longrightarrow>
     \<exists>F. trace w' = F @ trace w \<and> (\<forall>e\<in>set F. is_fs e)"
  by (auto simp: NamedTemporaryDir_init_def mkdtemp_def Let_def emit_def
           split: option.splits prod.splits sum.splits)

lemma stage_tmp_trace:
  assumes "stage_tmp sys hint c t ids ut adj w = (r, w')"
  shows "\<exists>F. trace w' = F @ trace w \<and> (\<forall>e\<in>set F. is_fs e)"
proof -
  obtain r1 w1 where i: "NamedTemporaryDir_init sys ''bzr_diff-'' hint c True w = (r1, w1)"
    by (cases "NamedTemporaryDir_init sys ''bzr_diff-'' hint c True w")
  from init_trace [OF i] obtain F1 where F1: "trace w1 = F1 @ trace w" "\<forall>e\<in>set F1. is_fs e" by blast
  show ?thesis
  proof (cases r1)
    case (Inl e)
    with assms i have "w' = w1" by (simp add: stage_tmp_def)
    with F1 show ?thesis by blast
  next
    case (Inr tmp_dir)
    obtain r2 w2 where ws: "write_stuff tmp_dir t ids ut w1 = (r2, w2)"
      by (cases "write_stuff tmp_dir t ids ut w1")
    from write_stuff_trace [OF ws] obtain F2 where
      F2: "trace w2 = F2 @ trace w1" "\<forall>e\<in>set F2. is_fs e" by blast
    from assms i Inr ws have "w' = w2" by (cases r2) (simp_all add: stage_tmp_def)
    with F1 F2 have "trace w' = (F2 @ F1) @ trace w \<and> (\<forall>e\<in>set (F2 @ F1). is_fs e)" by auto
    then show ?thesis by blast
  qed
qed

lemma get_diffs_or_stop_cases:
  assumes "get_diffs_or_stop env old_tree new_tree ids w = (r, w')"
  shows "(\<exists>e. r = Inl (Raised e) \<and> w' = w)
         \<or> (\<exists>ps d. get_diffs_path_list new_tree ids = Inr ps
               \<and> d = changes_from env new_tree old_tree ps
               \<and> trace w' = ChangesFrom (t_name new_tree) (t_name old_tree) ps d # trace w
               \<and> (if delta_size d = 0 then r = Inl NoDifferencesFound else r = Inr d))"
  using assms
  by (auto simp: get_diffs_or_stop_def Let_def split: sum.splits if_splits)

lemma diff_then_trace:
  assumes side: "\<And>w1 r2 w2. new_side w1 = (r2, w2) \<Longrightarrow>
                   \<exists>F. trace w2 = F @ trace w1 \<and> (\<forall>e\<in>set F. is_fs e)"
    and run: "diff_then env old_tree new_tree ids new_side w = (r, w')"
  shows "\<exists>evs. trace w' = evs @ trace w \<and> staged_new r evs"
proof -
  obtain r1 w1 where g: "get_diffs_or_stop env old_tree new_tree ids w = (r1, w1)"
    by (cases "get_diffs_or_stop env old_tree new_tree ids w")
  from get_diffs_or_stop_cases [OF g]
  consider (err) e where "r1 = Inl (Raised e)" "w1 = w"
    | (chg) ps d where "trace w1 = ChangesFrom (t_name new_tree) (t_name old_tree) ps d # trace w"
        "if delta_size d = 0 then r1 = Inl NoDifferencesFound else r1 = Inr d"
    by blast
  then show ?thesis
  proof cases
    case err
    with run g have "r = Inl (Raised e)" "w' = w" by (simp_all add: diff_then_def)
    then have "trace w' = [] @ trace w \<and> staged_new r []" by (simp add: staged_new.no_list)
    then show ?thesis by blast
  next
    case chg
    let ?c = "ChangesFrom (t_name new_tree) (t_name old_tree) ps d"
    show ?thesis
    proof (cases "delta_size d = 0")
      case True
      with chg run g have "r = Inl NoDifferencesFound" "w' = w1" by (simp_all add: diff_then_def)
      with chg True have "trace w' = [?c] @ trace w \<and> staged_new r [?c]"
        by (simp add: staged_new.same)
      then show ?thesis by blast
    next
      case False
      with chg have r1: "r1 = Inr d" by simp
      obtain r2 w2 where s: "new_side w1 = (r2, w2)" by (cases "new_side w1")
      from side [OF s] obtain F where F: "trace w2 = F @ trace w1" "\<forall>e\<in>set F. is_fs e" by blast
      have w': "w' = w2" using run g r1 s by (cases r2) (simp_all add: diff_then_def)
      have "staged_new r (F @ [?c])"
      proof (cases r2)
        case (Inl e)
        with run g r1 s have "r = Inl (Raised e)" by (simp add: diff_then_def)
        with False F show ?thesis by (simp add: staged_new.failed)
      next
        case (Inr p)
        with run g r1 s have "r = Inr (d, p)" by (simp add: diff_then_def)
        with False F show ?thesis by (simp add: staged_new.staged)
      qed
      moreover have "trace w' = (F @ [?c]) @ trace w" using w' F chg by simp
      ultimately show ?thesis by blast
    qed
  qed
qed

lemma stage_new_trace:
  assumes "stage_new env sys fl b1 wt1 ids1 snd_br rev2 md old_tree w = (r, w')"
  shows "\<exists>evs. trace w' = evs @ trace w \<and> staged_new r evs"
proof (cases rev2)
  case (Some rv)
  show ?thesis
  proof (cases "in_history b1 rv")
    case (Inl e)
    with Some assms have "trace w' = [] @ trace w \<and> staged_new r []"
      by (auto simp: stage_new_def staged_new.no_list)
    then show ?thesis by blast
  next
    case (Inr ri)
    obtain revno rev_id where ri: "ri = (revno, rev_id)" by (cases ri)
    show ?thesis
    proof (cases "revision_tree b1 rev_id")
      case (Inl e)
      with Some Inr ri assms have "trace w' = [] @ trace w \<and> staged_new r []"
        by (auto simp: stage_new_def staged_new.no_list)
      then show ?thesis by blast
    next
      case nt: (Inr new_tree)
      from Some Inr ri nt assms have dt:
        "diff_then env old_tree new_tree ids1
           (stage_tmp sys (''-rev'' @ str_nat revno) (cleanup_cap md) new_tree ids1
              (use_tree md) (adjust_path md)) w = (r, w')"
        by (simp add: stage_new_def)
      show ?thesis by (rule diff_then_trace [OF _ dt]) (erule stage_tmp_trace)
    qed
  qed
next
  case None
  show ?thesis
  proof (cases snd_br)
    case sb: (Some trip)
    obtain b2 wt2 ids2 where trip: "trip = (b2, wt2, ids2)" by (cases trip)
    show ?thesis
    proof (cases "t_is_working wt2")
      case True
      with None sb trip assms have dt:
        "diff_then env old_tree wt2 ids2 (\<lambda>w'. (in_place fl wt2 ids2, w')) w = (r, w')"
        by (simp add: stage_new_def)
      show ?thesis by (rule diff_then_trace [OF _ dt]) simp
    next
      case False
      with None sb trip assms have dt:
        "diff_then env old_tree wt2 ids2
           (stage_tmp sys (''-'' @ nick b2) (cleanup_cap md) wt2 ids2 (use_tree md) (adjust_path md))
           w = (r, w')"
        by (simp add: stage_new_def)
      show ?thesis by (rule diff_then_trace [OF _ dt]) (erule stage_tmp_trace)
    qed
  next
    case nb: None
    show ?thesis
    proof (cases "in_working_tree md")
      case True
      with None nb assms have dt:
        "diff_then env old_tree wt1 ids1 (\<lambda>w'. (in_place fl wt1 ids1, w')) w = (r, w')"
        by (simp add: stage_new_def)
      show ?thesis by (rule diff_then_trace [OF _ dt]) simp
    next
      case False
      with None nb assms have dt:
        "diff_then env old_tree (basis_tree b1) ids1
           (stage_tmp sys ''-basis'' (cleanup_cap md) (basis_tree b1) ids1
              (use_tree md) (adjust_path md)) w = (r, w')"
        by (simp add: stage_new_def)
      show ?thesis by (rule diff_then_trace [OF _ dt]) (erule stage_tmp_trace)
    qed
  qed
qed

lemma stage_old_trace:
  "stage_old sys fl wt1 ids1 has_b2 md old_tree old_hint w = (r, w') \<Longrightarrow>
     \<exists>F. trace w' = F @ trace w \<and> (\<forall>e\<in>set F. is_fs e)"
  by (cases "has_b2 \<and> in_working_tree md") (auto simp: stage_old_def dest: stage_tmp_trace)

lemma get_read_locks_trace:
  "trace (get_read_locks ts w) = map LockRead (rev (map t_name ts)) @ trace w"
  by (induction ts arbitrary: w) simp_all

lemma release_read_locks_trace:
  "trace (release_read_locks ts w) = map Unlock (rev (map t_name ts)) @ trace w"
  by (induction ts arbitrary: w) simp_all

lemma prelude_Nil: "prelude []"
  by (simp add: prelude_def)

lemma prelude_append: "prelude a \<Longrightarrow> prelude b \<Longrightarrow> prelude (a @ b)"
  by (auto simp: prelude_def held_append)

lemma prelude_pair: "prelude [Unlock n, LockRead n]"
  by (simp add: prelude_def)

lemma held_locks: "held (map LockRead ns) = int (length ns)"
  by (induction ns) simp_all

lemma held_unlocks: "held (map Unlock ns) = - int (length ns)"
  by (induction ns) simp_all

lemma prelude_lock_unlock: "prelude (map Unlock (rev ns) @ map LockRead (rev ns))"
  by (auto simp: prelude_def held_append held_locks held_unlocks)

lemma trees_to_lock_names: "map t_name (trees_to_lock wt1 snd_br) \<noteq> []"
  by (cases snd_br) (auto simp: trees_to_lock_def)

lemma compare_body_trace:
  assumes "compare_body env sys dtool fl rev1 rev2 b1 wt1 ids1 snd_br md w = (r, w')"
  shows "\<exists>evs. trace w' = evs @ trace w \<and> body_events (map t_name (trees_to_lock wt1 snd_br)) r evs"
proof (cases "choose_old b1 wt1 rev1 (snd_br \<noteq> None)")
  case (Inl e)
  with assms have "r = Inl (Raised e)" "w' = w" by (simp_all add: compare_body_def)
  then have "trace w' = [] @ trace w
             \<and> body_events (map t_name (trees_to_lock wt1 snd_br)) r []"
    by (simp add: body_events.early)
  then show ?thesis by blast
next
  case (Inr oh)
  obtain old_tree old_hint where oh: "oh = (old_tree, old_hint)" by (cases oh)
  let ?ts = "trees_to_lock wt1 snd_br"
  let ?ns = "map t_name ?ts"
  let ?L = "map LockRead (rev ?ns)"
  let ?U = "map Unlock (rev ?ns)"
  let ?w1 = "get_read_locks ?ts w"
  have t1: "trace ?w1 = ?L @ trace w" by (rule get_read_locks_trace)
  obtain rn w2 where sn: "stage_new env sys fl b1 wt1 ids1 snd_br rev2 md old_tree ?w1 = (rn, w2)"
    by (cases "stage_new env sys fl b1 wt1 ids1 snd_br rev2 md old_tree ?w1")
  from stage_new_trace [OF sn] obtain evs2 where
    e2: "trace w2 = evs2 @ trace ?w1" and st: "staged_new rn evs2" by blast
  have stop: "trace w' = (?U @ evs2 @ ?L) @ trace w" if "r = Inl x" "rn = Inl x" for x
  proof -
    from assms Inr oh sn that have "w' = release_read_locks ?ts w2"
      by (simp add: compare_body_def Let_def)
    with e2 t1 show ?thesis by (simp add: release_read_locks_trace)
  qed
  have rl: "r = Inl x" if "rn = Inl x" for x
    using assms Inr oh sn that by (simp add: compare_body_def Let_def)
  from st show ?thesis
  proof cases
    case (no_list e)
    then have "trace w' = (?U @ ?L) @ trace w \<and> body_events ?ns r (?U @ ?L)"
      using stop [of "Raised e"] rl [of "Raised e"] by (simp add: body_events.no_delta)
    then show ?thesis by blast
  next
    case (same d n m ps)
    then have "trace w' = (?U @ ChangesFrom n m ps d # ?L) @ trace w
               \<and> body_events ?ns r (?U @ ChangesFrom n m ps d # ?L)"
      using stop [of NoDifferencesFound] rl [of NoDifferencesFound]
      by (simp add: body_events.no_diff)
    then show ?thesis by blast
  next
    case (failed d F e n m ps)
    then have "trace w' = (?U @ F @ ChangesFrom n m ps d # ?L) @ trace w
               \<and> body_events ?ns r (?U @ F @ ChangesFrom n m ps d # ?L)"
      using stop [of "Raised e"] rl [of "Raised e"] by (simp add: body_events.stage_err)
    then show ?thesis by blast
  next
    case (staged d F new_path n m ps)
    obtain ro w3 where so:
      "stage_old sys fl wt1 ids1 (snd_br \<noteq> None) md old_tree old_hint w2 = (ro, w3)"
      by (cases "stage_old sys fl wt1 ids1 (snd_br \<noteq> None) md old_tree old_hint w2")
    from stage_old_trace [OF so] obtain F3 where
      F3: "trace w3 = F3 @ trace w2" "\<forall>e\<in>set F3. is_fs e" by blast
    have FF: "\<forall>e\<in>set (F3 @ F). is_fs e" using staged(4) F3 by auto
    have t3: "trace (release_read_locks ?ts w3)
                = (?U @ (F3 @ F) @ ChangesFrom n m ps d # ?L) @ trace w"
      using F3 e2 t1 staged(2) by (simp add: release_read_locks_trace)
    show ?thesis
    proof (cases ro)
      case (Inl e)
      with assms Inr oh sn staged(1) so have "r = Inl (Raised e)"
        and "w' = release_read_locks ?ts w3"
        by (simp_all add: compare_body_def Let_def)
      with t3 FF staged(3)
      have "trace w' = (?U @ (F3 @ F) @ ChangesFrom n m ps d # ?L) @ trace w
            \<and> body_events ?ns r (?U @ (F3 @ F) @ ChangesFrom n m ps d # ?L)"
        using body_events.stage_err [of d "F3 @ F" ?ns e n m ps] by simp
      then show ?thesis by blast
    next
      case op: (Inr old_path)
      let ?run = "RunTool old_path new_path (run_args dtool fl md d)"
      from assms Inr oh sn staged(1) so op have
        r: "r = Inr 1 \<or> (\<exists>e. r = Inl (Raised e))"
        and w': "trace w' = ?run # trace (release_read_locks ?ts w3)"
        by (auto simp: compare_body_def Let_def run_tool_def split: sum.splits)
      from w' t3 FF staged(3) r
      have "trace w' = (?run # ?U @ (F3 @ F) @ ChangesFrom n m ps d # ?L) @ trace w
            \<and> body_events ?ns r (?run # ?U @ (F3 @ F) @ ChangesFrom n m ps d # ?L)"
        using body_events.ran [of d "F3 @ F" r ?ns old_path new_path "run_args dtool fl md d" n m ps]
        by simp
      then show ?thesis by blast
    qed
  qed
qed

lemma get_tree_files_trace:
  assumes "get_tree_files env fl w = (r, w')"
  shows "\<exists>P. trace w' = P @ trace w \<and> prelude P"
proof (cases "open_first env fl")
  case (Inl e)
  with assms have "trace w' = [] @ trace w" by (simp add: get_tree_files_def)
  with prelude_Nil show ?thesis by blast
next
  case (Inr q)
  obtain branch1 t rel_path base_path where q: "q = (branch1, t, rel_path, base_path)"
    by (cases q)
  from assms Inr q have "trace w' = [Unlock (t_name t), LockRead (t_name t)] @ trace w"
    by (auto simp: get_tree_files_def Let_def split: sum.splits)
  with prelude_pair show ?thesis by blast
qed

lemma get_tree_files_ok_trace:
  assumes "get_tree_files env fl w = (Inr (b, t, ids, rest), w')"
  shows "trace w' = Unlock (t_name t) # LockRead (t_name t) # trace w"
  using assms
  by (auto simp: get_tree_files_def Let_def split: sum.splits prod.splits)

lemma second_branch_trace:
  assumes "second_branch env rest rev1 rev2 w = (r, w')"
  shows "\<exists>P. trace w' = P @ trace w \<and> prelude P"
proof (cases "0 < length rest")
  case False
  with assms have "trace w' = [] @ trace w" by (simp add: second_branch_def)
  with prelude_Nil show ?thesis by blast
next
  case True
  obtain r1 w1 where g: "get_tree_files env rest w = (r1, w1)" by (cases "get_tree_files env rest w")
  from True assms g have "w' = w1"
    by (auto simp: second_branch_def split: sum.splits prod.splits if_splits)
  with get_tree_files_trace [OF g] show ?thesis by simp
qed

lemma compare_using_shape:
  assumes "compare_using env sys dtool fl rev1 rev2 w = (r, w')"
  shows "\<exists>P B. trace w' = B @ P @ trace w \<and> prelude P
           \<and> ((B = [] \<and> (\<exists>e. r = Inl e))
               \<or> (\<exists>ns rb. ns \<noteq> [] \<and> body_events ns rb B \<and> r = outcome rb))"
proof -
  obtain r1 w1 where g1: "get_tree_files env fl w = (r1, w1)" by (cases "get_tree_files env fl w")
  from get_tree_files_trace [OF g1] obtain P1 where
    P1: "trace w1 = P1 @ trace w" "prelude P1" by blast
  show ?thesis
  proof (cases r1)
    case (Inl e)
    with assms g1 have "r = Inl e" "w' = w1" by (simp_all add: compare_using_def)
    with P1 have "trace w' = [] @ P1 @ trace w \<and> prelude P1 \<and> (\<exists>e. r = Inl e)" by simp
    then show ?thesis by blast
  next
    case (Inr q)
    obtain b1 wt1 ids1 rest where q: "q = (b1, wt1, ids1, rest)" by (cases q)
    obtain r2 w2 where g2: "second_branch env rest rev1 rev2 w1 = (r2, w2)"
      by (cases "second_branch env rest rev1 rev2 w1")
    from second_branch_trace [OF g2] obtain P2 where
      P2: "trace w2 = P2 @ trace w1" "prelude P2" by blast
    show ?thesis
    proof (cases r2)
      case (Inl e)
      with assms g1 Inr q g2 have "r = Inl e" "w' = w2" by (simp_all add: compare_using_def)
      with P1 P2 have "trace w' = [] @ (P2 @ P1) @ trace w \<and> prelude (P2 @ P1) \<and> (\<exists>e. r = Inl e)"
        by (simp add: prelude_append)
      then show ?thesis by blast
    next
      case sb: (Inr snd_br)
      let ?ts = "trees_to_lock wt1 snd_br"
      let ?ns = "map t_name ?ts"
      let ?P = "(map Unlock (rev ?ns) @ map LockRead (rev ?ns)) @ P2 @ P1"
      let ?w4 = "release_read_locks ?ts (get_read_locks ?ts w2)"
      have t4: "trace ?w4 = ?P @ trace w"
        using P1 P2 by (simp add: release_read_locks_trace get_read_locks_trace)
      have pp: "prelude ?P"
        using P1 P2 by (intro prelude_append prelude_lock_unlock)
      show ?thesis
      proof (cases "choose_mode dtool fl wt1 ids1 (snd_br \<noteq> None)")
        case (Inl e)
        with assms g1 Inr q g2 sb have "r = Inl e" "w' = ?w4"
          by (simp_all add: compare_using_def Let_def)
        with t4 pp have "trace w' = [] @ ?P @ trace w \<and> prelude ?P \<and> (\<exists>e. r = Inl e)" by simp
        then show ?thesis by blast
      next
        case md: (Inr md)
        obtain rb w5 where cb:
          "compare_body env sys dtool fl rev1 rev2 b1 wt1 ids1 snd_br md ?w4 = (rb, w5)"
          by (cases "compare_body env sys dtool fl rev1 rev2 b1 wt1 ids1 snd_br md ?w4")
        from compare_body_trace [OF cb] obtain B where
          B: "trace w5 = B @ trace ?w4" "body_events ?ns rb B" by blast
        from assms g1 Inr q g2 sb md cb have "r = outcome rb" "w' = w5"
          by (auto simp: compare_using_def Let_def outcome_def split: sum.splits exn.splits)
        with B t4 pp trees_to_lock_names [of wt1 snd_br]
        have "trace w' = B @ ?P @ trace w \<and> prelude ?P
                \<and> ?ns \<noteq> [] \<and> body_events ?ns rb B \<and> r = outcome rb"
          by simp
        then show ?thesis by blast
      qed
    qed
  qed
qed

section \<open>Claims about compare\_using\<close>

lemma locking_quiet:
  "\<forall>e\<in>set P. is_lock e \<or> is_unlock e \<Longrightarrow>
     deltas P = [] \<and> \<not> list_ex is_run P \<and> \<not> list_ex is_write P \<and> \<not> list_ex is_mkdtemp P"
proof (induction P)
  case Nil
  then show ?case by simp
next
  case (Cons e P)
  then show ?case by (cases e) simp_all
qed

lemma fs_quiet: "\<forall>e\<in>set F. is_fs e \<Longrightarrow> deltas F = [] \<and> \<not> list_ex is_run F \<and> held F = 0"
proof (induction F)
  case Nil
  then show ?case by simp
next
  case (Cons e F)
  then show ?case by (cases e) simp_all
qed

lemma locks_locking: "\<forall>e\<in>set (map LockRead ns). is_lock e \<or> is_unlock e"
  by simp

lemma unlocks_locking: "\<forall>e\<in>set (map Unlock ns). is_lock e \<or> is_unlock e"
  by simp

lemma prelude_quiet:
  "prelude P \<Longrightarrow> deltas P = [] \<and> \<not> list_ex is_run P \<and> \<not> list_ex is_write P \<and> held P = 0"
  using locking_quiet by (simp add: prelude_def)

lemma locks_quiet:
  "deltas (map LockRead ns) = []" "\<not> list_ex is_run (map LockRead ns)"
  "\<not> list_ex is_write (map LockRead ns)"
  "deltas (map Unlock ns) = []" "\<not> list_ex is_run (map Unlock ns)"
  "\<not> list_ex is_write (map Unlock ns)"
  using locking_quiet [OF locks_locking, of ns] locking_quiet [OF unlocks_locking, of ns]
  by blast+

lemma body_events_returned:
  assumes "body_events ns rb B" and "outcome rb = Inr x"
  shows "\<exists>d. deltas B = [d] \<and> x = (if delta_size d = 0 then 0 else 1)
              \<and> list_ex is_run B = (x = 1)"
  using assms
proof cases
  case (early e)
  with assms(2) show ?thesis by (simp add: outcome_def)
next
  case (no_delta e)
  with assms(2) show ?thesis by (simp add: outcome_def)
next
  case (no_diff d n m ps)
  with assms(2) have "x = 0" by (simp add: outcome_def)
  with no_diff show ?thesis by (simp add: deltas_append locks_quiet)
next
  case (stage_err d F e n m ps)
  with assms(2) show ?thesis by (simp add: outcome_def)
next
  case (ran d F p q l n m ps)
  with assms(2) have "x = 1" by (auto simp: outcome_def)
  with ran fs_quiet [of F] show ?thesis by (simp add: deltas_append locks_quiet)
qed

text \<open>
  C1. Whenever \<open>compare_using\<close> returns a result code, exactly one delta was computed
  during the invocation, and the code is 0 if that delta has no entries and 1 otherwise.
  The external tool was started exactly in the second case, and then the code is the
  constant 1: the exit status the tool's process returned (\<open>tool_exit\<close>) does not
  appear in the result.
\<close>

theorem compare_using_result:
  assumes "compare_using env sys dtool file_list rev1 rev2 w = (Inr x, w')"
  shows "\<exists>d. deltas (since w w') = [d]
              \<and> x = (if delta_size d = 0 then 0 else 1)
              \<and> list_ex is_run (since w w') = (x = 1)"
proof -
  from compare_using_shape [OF assms] obtain P B ns rb where
    tr: "trace w' = B @ P @ trace w" and P: "prelude P"
    and b: "body_events ns rb B" and r: "Inr x = outcome rb"
    by auto
  have s: "since w w' = B @ P" using tr by (simp add: since_def)
  from body_events_returned [OF b r [symmetric]] obtain d where
    "deltas B = [d]" "x = (if delta_size d = 0 then 0 else 1)" "list_ex is_run B = (x = 1)"
    by blast
  with s prelude_quiet [OF P] show ?thesis by (simp add: deltas_append)
qed

theorem compare_using_result_witness:
  "compare_using ex_env ex_os ex_vimdiff [''/br1/a.txt''] None None ex_w0 = (Inr 1, ex_after_file)
   \<and> deltas (since ex_w0 ex_after_file)
         = [\<lparr>removed = [], added = [], renamed = [],
             modified = [(''a.txt'', ''a-id'', ''file'', True, False)]\<rparr>]
   \<and> list_ex is_run (since ex_w0 ex_after_file)
   \<and> compare_using ex_env ex_os ex_vimdiff [''/br1/a.txt'', ''/br2/a.txt''] None None ex_w0
         = (Inr 0, ex_after_same)
   \<and> deltas (since ex_w0 ex_after_same)
         = [\<lparr>removed = [], added = [], renamed = [], modified = []\<rparr>]
   \<and> \<not> list_ex is_run (since ex_w0 ex_after_same)"
proof -
  have h1: "compare_using ex_env ex_os ex_vimdiff [''/br1/a.txt''] None None ex_w0
              = (Inr 1, ex_after_file)"
    by code_simp
  have h2: "compare_using ex_env ex_os ex_vimdiff [''/br1/a.txt'', ''/br2/a.txt''] None None ex_w0
              = (Inr 0, ex_after_same)"
    by code_simp
  have d1: "deltas (since ex_w0 ex_after_file)
         = [\<lparr>removed = [], added = [], renamed = [],
             modified = [(''a.txt'', ''a-id'', ''file'', True, False)]\<rparr>]"
    by code_simp
  have d2: "deltas (since ex_w0 ex_after_same)
         = [\<lparr>removed = [], added = [], renamed = [], modified = []\<rparr>]"
    by code_simp
  show ?thesis
    using h1 h2 d1 d2 compare_using_result [OF h1] compare_using_result [OF h2] by simp
qed

lemma runs_unlocked_quiet: "\<not> list_ex is_run evs \<Longrightarrow> runs_unlocked evs"
  by (induction evs) simp_all

lemma writes_locked_quiet: "\<not> list_ex is_write evs \<Longrightarrow> writes_locked evs"
  by (induction evs) simp_all

lemma writes_locked_skip:
  "\<not> list_ex is_write a \<Longrightarrow> writes_locked (a @ b) = writes_locked b"
  by (induction a) simp_all

lemma writes_locked_fs:
  "\<forall>e\<in>set F. is_fs e \<Longrightarrow> 0 < held b \<Longrightarrow> writes_locked b \<Longrightarrow> writes_locked (F @ b)"
proof (induction F)
  case Nil
  then show ?case by simp
next
  case (Cons e F)
  then have "held (F @ b) = held b" using fs_quiet [of F] by (simp add: held_append)
  with Cons show ?case by simp
qed

lemma body_events_locking:
  assumes "body_events ns rb B" and "ns \<noteq> []" and "prelude P"
  shows "runs_unlocked (B @ P) \<and> writes_locked (B @ P)"
proof -
  let ?U = "map Unlock (rev ns)"
  let ?L = "map LockRead (rev ns)"
  have qP: "\<not> list_ex is_run P" "\<not> list_ex is_write P" "held P = 0"
    using prelude_quiet [OF assms(3)] by blast+
  have hL: "held (?L @ P) = int (length ns)" using qP by (simp add: held_append held_locks)
  have quiet: "runs_unlocked (?U @ C @ ?L @ P) \<and> writes_locked (?U @ C @ ?L @ P)"
    if "\<not> list_ex is_run C" "\<not> list_ex is_write C" for C
    using that qP by (simp add: runs_unlocked_quiet writes_locked_quiet locks_quiet)
  have staged: "runs_unlocked (R @ ?U @ F @ ChangesFrom n m ps d # ?L @ P)
                \<and> writes_locked (R @ ?U @ F @ ChangesFrom n m ps d # ?L @ P)"
    if F: "\<forall>e\<in>set F. is_fs e" and R: "R = [] \<or> R = [RunTool p q l]" for R F n m ps d p q l
  proof -
    let ?c = "ChangesFrom n m ps d"
    have qF: "\<not> list_ex is_run F" "held F = 0" using fs_quiet [OF F] by blast+
    have rest: "\<not> list_ex is_run (?U @ F @ ?c # ?L @ P)" using qF qP by (simp add: locks_quiet)
    have h0: "held (?U @ F @ ?c # ?L @ P) = 0"
      using qF qP by (simp add: held_append held_locks held_unlocks)
    have ru: "runs_unlocked (R @ ?U @ F @ ?c # ?L @ P)"
      using R rest h0 by (auto simp: runs_unlocked_quiet)
    have pos: "0 < held (?c # ?L @ P)" using hL assms(2) by simp
    have wl0: "writes_locked (?c # ?L @ P)"
      using qP by (simp add: writes_locked_quiet locks_quiet)
    have wl1: "writes_locked (F @ ?c # ?L @ P)" using F pos wl0 by (rule writes_locked_fs)
    have "\<not> list_ex is_write (R @ ?U)" using R by (auto simp: locks_quiet)
    then have "writes_locked ((R @ ?U) @ F @ ?c # ?L @ P)"
      using wl1 writes_locked_skip by blast
    with ru show ?thesis by simp
  qed
  from assms(1) show ?thesis
  proof cases
    case (early e)
    with qP show ?thesis by (simp add: runs_unlocked_quiet writes_locked_quiet)
  next
    case (no_delta e)
    with quiet [of "[]"] show ?thesis by simp
  next
    case (no_diff d n m ps)
    with quiet [of "[ChangesFrom n m ps d]"] show ?thesis by simp
  next
    case (stage_err d F e n m ps)
    with staged [where R="[]" and F=F and n=n and m=m and ps=ps and d=d] show ?thesis by simp
  next
    case (ran d F p q l n m ps)
    with staged [where R="[RunTool p q l]" and F=F and n=n and m=m and ps=ps and d=d and p=p and q=q and l=l] show ?thesis by simp
  qed
qed

text \<open>
  C2, as amended. In every invocation, however it ends, each start of the external tool
  happens with no read lock held, and each write of snapshot content into a staging
  directory happens while a read lock is held: the locks taken at line 136 are released
  at line 190, after the staging and before the tool.
\<close>

theorem tool_runs_after_release:
  assumes "compare_using env sys dtool file_list rev1 rev2 w = (r, w')"
  shows "runs_unlocked (since w w') \<and> writes_locked (since w w')"
proof -
  from compare_using_shape [OF assms] obtain P B where
    tr: "trace w' = B @ P @ trace w" and P: "prelude P"
    and c: "B = [] \<or> (\<exists>ns rb. ns \<noteq> [] \<and> body_events ns rb B)"
    by blast
  have s: "since w w' = B @ P" using tr by (simp add: since_def)
  from c show ?thesis
  proof
    assume "B = []"
    with s prelude_quiet [OF P] show ?thesis
      by (simp add: runs_unlocked_quiet writes_locked_quiet)
  next
    assume "\<exists>ns rb. ns \<noteq> [] \<and> body_events ns rb B"
    then obtain ns rb where "ns \<noteq> []" "body_events ns rb B" by blast
    with P s show ?thesis by (simp add: body_events_locking)
  qed
qed

text \<open>
  C2, as stated, fails: comparing one modified file of a working tree with a list tool
  writes the old text into the staging directory between the lock and the unlock.
\<close>

theorem staging_writes_unlocked_counterexample:
  "compare_using ex_env ex_os ex_vimdiff [''/br1/a.txt''] None None ex_w0 = (Inr 1, ex_after_file)
   \<and> \<not> writes_unlocked (since ex_w0 ex_after_file)"
  by code_simp

theorem tool_runs_after_release_witness:
  "compare_using ex_env ex_os ex_vimdiff [''/br1/a.txt''] None None ex_w0 = (Inr 1, ex_after_file)
   \<and> list_ex is_run (since ex_w0 ex_after_file)
   \<and> list_ex is_write (since ex_w0 ex_after_file)
   \<and> runs_unlocked (since ex_w0 ex_after_file)
   \<and> writes_locked (since ex_w0 ex_after_file)"
proof -
  have h: "compare_using ex_env ex_os ex_vimdiff [''/br1/a.txt''] None None ex_w0
             = (Inr 1, ex_after_file)"
    by code_simp
  have r: "list_ex is_run (since ex_w0 ex_after_file)" by code_simp
  have wr: "list_ex is_write (since ex_w0 ex_after_file)" by code_simp
  show ?thesis using h r wr tool_runs_after_release [OF h] by simp
qed

text \<open>
  C4, as amended. When the names resolve to a first branch with names left over, the
  left-over names resolve to a second branch, and a revision is given, \<open>compare_using\<close>
  raises a usage error (\<open>BzrCommandError\<close>). What the invocation has logged by then is
  exactly the read lock that each of the two \<open>get_tree_files\<close> calls took and released on
  its tree: no lock is held when the error is raised, the locks of lines 95 and 136 were
  never taken, and no staging directory was made.
\<close>

theorem revision_with_two_branches:
  assumes "get_tree_files env file_list w = (Inr (b1, work_tree1, file_ids1, rest), w1)"
    and "rest \<noteq> []"
    and "get_tree_files env rest w1 = (Inr (b2, work_tree2, file_ids2, rest'), w2)"
    and "rev1 \<noteq> None \<or> rev2 \<noteq> None"
  shows "compare_using env sys dtool file_list rev1 rev2 w =
           (Inl (BzrCommandError (if rest' \<noteq> [] then ''Cannot compare more than two branches''
                                  else ''Cannot specify -r with multiple branches'')), w2)
         \<and> since w w2 = [Unlock (t_name work_tree2), LockRead (t_name work_tree2),
                          Unlock (t_name work_tree1), LockRead (t_name work_tree1)]"
proof -
  have "trace w2 = [Unlock (t_name work_tree2), LockRead (t_name work_tree2),
                    Unlock (t_name work_tree1), LockRead (t_name work_tree1)] @ trace w"
    using get_tree_files_ok_trace [OF assms(1)] get_tree_files_ok_trace [OF assms(3)] by simp
  then have "since w w2 = [Unlock (t_name work_tree2), LockRead (t_name work_tree2),
                           Unlock (t_name work_tree1), LockRead (t_name work_tree1)]"
    by (rule since_ext)
  moreover have "compare_using env sys dtool file_list rev1 rev2 w =
           (Inl (BzrCommandError (if rest' \<noteq> [] then ''Cannot compare more than two branches''
                                  else ''Cannot specify -r with multiple branches'')), w2)"
    using assms by (auto simp: compare_using_def second_branch_def)
  ultimately show ?thesis by simp
qed

text \<open>
  C4, as stated, fails: the usage error comes after read locks were acquired, by
  \<open>get_tree_files\<close> at line 241.
\<close>

theorem usage_error_before_locks_counterexample:
  "compare_using ex_env ex_os ex_vimdiff [''/br1/a.txt'', ''/br2/a.txt''] (Some ''1'') None ex_w0
     = (Inl (BzrCommandError ''Cannot specify -r with multiple branches''), ex_after_usage)
   \<and> list_ex is_lock (since ex_w0 ex_after_usage)"
  by code_simp

lemmas ex_defs = ex_env_def ex_wt1_def ex_wt2_def ex_br1_def ex_br2_def ex_basis1_def
  ex_basis2_def ex_inventory_def ex_w0_def ex_locked_once_def ex_after_usage_def


lemmas gtf_defs = get_tree_files_def open_first_def resolve_name_def name_rpath_def
  rpath_by_branch_def unmatched_def path2id_def id2abspath_def id2path_def abspath_def
  pathjoin_def endswith_def emit_def Let_def

theorem revision_with_two_branches_witness:
  "get_tree_files ex_env [''/br1/a.txt'', ''/br2/a.txt''] ex_w0
     = (Inr (ex_br1, ex_wt1, [''a-id''], [''/br2/a.txt'']), ex_locked_once)
   \<and> get_tree_files ex_env [''/br2/a.txt''] ex_locked_once
     = (Inr (ex_br2, ex_wt2, [''a-id''], []), ex_after_usage)
   \<and> compare_using ex_env ex_os ex_vimdiff [''/br1/a.txt'', ''/br2/a.txt''] (Some ''1'') None ex_w0
     = (Inl (BzrCommandError ''Cannot specify -r with multiple branches''), ex_after_usage)
   \<and> since ex_w0 ex_after_usage = [Unlock ''wt2'', LockRead ''wt2'', Unlock ''wt1'', LockRead ''wt1'']"
proof -
  have h1: "get_tree_files ex_env [''/br1/a.txt'', ''/br2/a.txt''] ex_w0
          = (Inr (ex_br1, ex_wt1, [''a-id''], [''/br2/a.txt'']), ex_locked_once)"
    by (simp add: gtf_defs ex_defs)
  have h2: "[''/br2/a.txt''] \<noteq> []" by simp
  have h3: "get_tree_files ex_env [''/br2/a.txt''] ex_locked_once
          = (Inr (ex_br2, ex_wt2, [''a-id''], []), ex_after_usage)"
    by (simp add: gtf_defs ex_defs)
  have h4: "Some ''1'' \<noteq> None \<or> (None :: string option) \<noteq> None" by simp
  have n: "t_name ex_wt1 = ''wt1''" "t_name ex_wt2 = ''wt2''"
    by (simp_all add: ex_wt1_def ex_wt2_def)
  show ?thesis
    using h1 h3 n revision_with_two_branches [OF h1 h2 h3 h4, of ex_os ex_vimdiff] by simp
qed

section \<open>Claims about get\_diffs\_or\_stop and get\_tree\_files\<close>

lemma has_id_path: "has_id t fid \<Longrightarrow> \<exists>p. id2path t fid = Inr p \<and> p \<in> e_path ` set (inventory t)"
  by (auto simp: has_id_def id2path_def find_Some_iff split: option.splits)

lemma get_diffs_path_list_eq:
  "\<exists>ps. get_diffs_path_list new_tree ids = Inr ps
        \<and> map Inr ps = map (id2path new_tree) (filter (has_id new_tree) ids)
        \<and> set ps \<subseteq> e_path ` set (inventory new_tree)"
proof (induction ids)
  case Nil
  then show ?case by simp
next
  case (Cons fid ids)
  then obtain ps where ps: "get_diffs_path_list new_tree ids = Inr ps"
    "map Inr ps = map (id2path new_tree) (filter (has_id new_tree) ids)"
    "set ps \<subseteq> e_path ` set (inventory new_tree)"
    by blast
  show ?case
  proof (cases "has_id new_tree fid")
    case False
    with ps show ?thesis by simp
  next
    case True
    from has_id_path [OF True] obtain p where
      "id2path new_tree fid = Inr p" "p \<in> e_path ` set (inventory new_tree)" by blast
    with True ps show ?thesis by simp
  qed
qed

text \<open>
  C3, as amended. Whatever the two trees and the requested file ids, \<open>get_diffs_or_stop\<close>
  asks bzrlib for one delta, restricted to exactly these paths: for each requested id that
  the new tree has, in the order requested, its path in the new tree. Every path of the
  restriction is therefore a path of the new tree, and an id the new tree does not have
  (an item deleted there) adds nothing: the old tree is not consulted.
\<close>

theorem restriction_from_new_tree:
  "\<exists>ps. restrictions (since w (snd (get_diffs_or_stop env old_tree new_tree ids w))) = [ps]
        \<and> map Inr ps = map (id2path new_tree) (filter (has_id new_tree) ids)
        \<and> set ps \<subseteq> e_path ` set (inventory new_tree)"
proof -
  from get_diffs_path_list_eq [of new_tree ids] obtain ps where
    ps: "get_diffs_path_list new_tree ids = Inr ps"
    "map Inr ps = map (id2path new_tree) (filter (has_id new_tree) ids)"
    "set ps \<subseteq> e_path ` set (inventory new_tree)"
    by blast
  let ?d = "changes_from env new_tree old_tree ps"
  have "trace (snd (get_diffs_or_stop env old_tree new_tree ids w))
          = [ChangesFrom (t_name new_tree) (t_name old_tree) ps ?d] @ trace w"
    using ps(1) by (simp add: get_diffs_or_stop_def Let_def)
  then have "since w (snd (get_diffs_or_stop env old_tree new_tree ids w))
          = [ChangesFrom (t_name new_tree) (t_name old_tree) ps ?d]"
    by (rule since_ext)
  with ps show ?thesis by simp
qed

text \<open>
  C3, as stated, fails: \<open>sub/data.txt\<close> is in the old tree and not in the new one, it is
  requested by its id, and its old path is not in the restriction.
\<close>

theorem deleted_item_not_in_restriction_counterexample:
  "has_id ex_basis1 ''d-id''
   \<and> id2path ex_basis1 ''d-id'' = Inr ''sub/data.txt''
   \<and> \<not> has_id ex_rev2 ''d-id''
   \<and> restrictions (since ex_w0 (snd (get_diffs_or_stop ex_env ex_basis1 ex_rev2
                                        [''a-id'', ''d-id''] ex_w0))) = [[''a.txt'']]"
  by code_simp





section \<open>Claims about the mode and the iterative path list\<close>

text \<open>Where the path does start with \<open>adjust_path\<close>, line 200 replaces that prefix.\<close>

lemma replace1_prefix: "old \<noteq> [] \<Longrightarrow> replace1 (old @ rest) old new = new @ rest"
  by (cases old) simp_all

text \<open>
  C6. In iterative mode the list handed to the tool is made of the delta's modified entries
  with text changes, and a path is to be rewritten only where it starts with
  \<open>adjust_path\<close>. The code does not keep to the second half:
  \<open>path.replace(adjust_path, '.', 1)\<close> rewrites the leftmost occurrence wherever it
  starts. Comparing \<open>sub/data.txt\<close> between two branches with a list tool,
  \<open>adjust_path\<close> is \<open>data.txt\<close>, the modified path is \<open>sub/data.txt\<close>, and the tool is
  handed \<open>sub/.\<close>: an occurrence that is not at the start of the path was replaced.
\<close>

theorem iterative_path_inner_occurrence:
  "compare_using ex_env ex_os ex_vimdiff [''/br1/sub/data.txt'', ''/br2/sub/data.txt'']
       None None ex_w0 = (Inr 1, ex_after_data)
   \<and> hd (trace ex_after_data) = RunTool ''/br1/'' ''/br2/'' (Some [''sub/.''])
   \<and> choose_mode ex_vimdiff [''/br1/sub/data.txt'', ''/br2/sub/data.txt''] ex_wt1 [''d-id''] True
       = Inr \<lparr>in_subdir = False, in_working_tree = True, use_tree = False,
              adjust_path = ''data.txt'', cleanup_cap = Some True\<rparr>
   \<and> iter_path_list ''data.txt''
        \<lparr>removed = [], added = [], renamed = [],
         modified = [(''sub/data.txt'', ''d-id'', ''file'', True, False)]\<rparr> = [''sub/.'']
   \<and> replace1 ''sub/data.txt'' ''data.txt'' ''.'' = ''sub/.''"
  by code_simp




end
